theory Spec2Isabelle
  imports Complex_Main
begin

unbundle bit_operations_syntax

section \<open>Data model of \<^verbatim>\<open>src/pr-info.ts\<close>\<close>

text \<open>
  Conventions of the embedding.
  \<^item> A JavaScript string is a \<^typ>\<open>string\<close>; its elements stand for code units below 256,
    so the line terminators a regular expression's \<^verbatim>\<open>.\<close> refuses are line feed and
    carriage return.
  \<^item> A value that may be \<^verbatim>\<open>null\<close> or \<^verbatim>\<open>undefined\<close> is an \<^typ>\<open>'a option\<close>.
  \<^item> A GraphQL \<^verbatim>\<open>DateTime\<close> is modelled by the instant it denotes, in milliseconds
    since the epoch: \<^verbatim>\<open>new Date(s)\<close> and \<^verbatim>\<open>getTime()\<close> are then the identity, and the
    order of the uniform ISO-8601 texts is the order of the instants.
  \<^item> A thrown exception is the left summand of a result. The collaborators that the
    caller passes in (\<^verbatim>\<open>fetchFile\<close>, \<^verbatim>\<open>getDownloads\<close>, \<^verbatim>\<open>getNow\<close>) answer and do not throw.
  \<^item> Requests to the \<^verbatim>\<open>fetchFile\<close> collaborator are recorded in a log that is passed
    along, so that what is fetched, and in which order, is part of the result.
\<close>

type_synonym DateTime = int

datatype js_error = SyntaxError | TypeError | OtherError

datatype DangerLevel =
    ScopedAndTested
  | ScopedAndUntested
  | ScopedAndConfiguration
  | MultiplePackagesEdited
  | Infrastructure

datatype PopularityLevel = WellLikedByEveryone | Popular | Critical

datatype FileKind =
    K_test | K_definition | K_markdown | K_package_meta | K_package_meta_ok | K_infrastructure

record FileInfo =
  path :: string
  kind :: FileKind
  package :: "string option"

definition CriticalPopularityThreshold :: int where
  "CriticalPopularityThreshold = 5000000"

definition NormalPopularityThreshold :: int where
  "NormalPopularityThreshold = 200000"

section \<open>String helpers of the runtime\<close>

definition isLineTerminator :: "char \<Rightarrow> bool" where
  "isLineTerminator c = (c = CHR 0x0A \<or> c = CHR 0x0D)"

text \<open>\<^verbatim>\<open>s.split(sep)\<close> for a one-character separator: always at least one part.\<close>

fun split_on :: "char \<Rightarrow> string \<Rightarrow> string list" where
  "split_on sep [] = [[]]"
| "split_on sep (c # cs) =
     (if c = sep then [] # split_on sep cs
      else (case split_on sep cs of
              [] \<Rightarrow> [[c]]
            | p # ps \<Rightarrow> (c # p) # ps))"

text \<open>\<^verbatim>\<open>s.startsWith(p)\<close>.\<close>

definition startsWith :: "string \<Rightarrow> string \<Rightarrow> bool" where
  "startsWith s p = (take (length p) s = p)"

text \<open>\<^verbatim>\<open>s.includes(p)\<close>: \<open>p\<close> occurs in \<open>s\<close> at some position.\<close>

fun includes_str :: "string \<Rightarrow> string \<Rightarrow> bool" where
  "includes_str [] p = (p = [])"
| "includes_str (c # cs) p = (startsWith (c # cs) p \<or> includes_str cs p)"

text \<open>Decimal text of a number, as a template literal prints an integer.\<close>

fun digits_of_nat :: "nat \<Rightarrow> string" where
  "digits_of_nat n =
     (if n < 10 then [char_of (48 + n)]
      else digits_of_nat (n div 10) @ [char_of (48 + n mod 10)])"

definition string_of_int :: "int \<Rightarrow> string" where
  "string_of_int i = (if i < 0 then CHR ''-'' # digits_of_nat (nat (- i)) else digits_of_nat (nat i))"

section \<open>The path pattern of \<^verbatim>\<open>categorizeFile\<close>\<close>

text \<open>
  The regular expression
  \<^verbatim>\<open>/^types\/(.*?)\/.*?[^\/](?:\.(d\.ts|tsx?|md))?$/\<close>
  is followed piece by piece, in the order a backtracking matcher tries the alternatives.
  \<open>match_suffix\<close> is the optional group followed by the end of the input; the group is
  greedy, and after it only the end of the input is accepted.
\<close>

definition match_suffix :: "string \<Rightarrow> string option option" where
  "match_suffix s =
     (if s = ''.d.ts'' then Some (Some ''d.ts'')
      else if s = ''.ts'' then Some (Some ''ts'')
      else if s = ''.tsx'' then Some (Some ''tsx'')
      else if s = ''.md'' then Some (Some ''md'')
      else if s = [] then Some None
      else None)"

text \<open>
  \<^verbatim>\<open>.*?[^\/]\<close> and the rest: the lazy star first tries to stop, so that the current
  character is the one that is not a slash; otherwise the star takes the character, which
  it refuses when it is a line terminator.
\<close>

fun match_rest :: "string \<Rightarrow> string option option" where
  "match_rest [] = None"
| "match_rest (c # cs) =
     (case (if c \<noteq> CHR ''/'' then match_suffix cs else None) of
        Some sfx \<Rightarrow> Some sfx
      | None \<Rightarrow> if isLineTerminator c then None else match_rest cs)"

text \<open>
  \<^verbatim>\<open>(.*?)\/\<close> and the rest: the lazy group first tries to stop at a slash; \<open>acc\<close> holds
  the characters of the group read so far, last first.
\<close>

fun match_package :: "string \<Rightarrow> string \<Rightarrow> (string \<times> string option) option" where
  "match_package acc [] = None"
| "match_package acc (c # cs) =
     (case (if c = CHR ''/'' then match_rest cs else None) of
        Some sfx \<Rightarrow> Some (rev acc, sfx)
      | None \<Rightarrow> if isLineTerminator c then None else match_package (c # acc) cs)"

text \<open>The whole pattern: \<open>Some (pkg, suffix)\<close> are the two groups of a match.\<close>

definition path_pattern_exec :: "string \<Rightarrow> (string \<times> string option) option" where
  "path_pattern_exec p =
     (if startsWith p ''types/'' then match_package [] (drop 6 p) else None)"

text \<open>
  \<^verbatim>\<open>path.replace(/.*\//, "")\<close>: the first match from the left is removed. A match that
  starts at the front of \<open>s\<close> runs to the last slash before the first line terminator;
  when there is none the matcher moves one character on.
\<close>

definition last_slash_in_line :: "string \<Rightarrow> nat option" where
  "last_slash_in_line s =
     (let line = takeWhile (\<lambda>c. \<not> isLineTerminator c) s;
          after = takeWhile (\<lambda>c. c \<noteq> CHR ''/'') (rev line)
      in if CHR ''/'' \<in> set line then Some (length line - length after) else None)"

fun remove_directories :: "string \<Rightarrow> string" where
  "remove_directories [] = []"
| "remove_directories (c # cs) =
     (case last_slash_in_line (c # cs) of
        Some n \<Rightarrow> drop n (c # cs)
      | None \<Rightarrow> c # remove_directories cs)"

section \<open>The query result\<close>

text \<open>
  The shapes the code reads from the GraphQL response (\<^verbatim>\<open>queries/schema/PR\<close>). A
  connection's \<^verbatim>\<open>nodes\<close> may be null and so may each node.
\<close>

type_synonym 'a nodes = "'a option list option"

datatype PullRequestState = OPEN | CLOSED | MERGED

datatype MergeableState = MERGEABLE | CONFLICTING | UNKNOWN

datatype CommentAuthorAssociation =
  MEMBER | OWNER | COLLABORATOR | CONTRIBUTOR | FIRST_TIME_CONTRIBUTOR | FIRST_TIMER | NONE

datatype PullRequestReviewState = PENDING | COMMENTED | APPROVED | CHANGES_REQUESTED | DISMISSED

datatype CheckConclusionState =
  SUCCESS | FAILURE | SKIPPED | TIMED_OUT | ACTION_REQUIRED | CANCELLED | NEUTRAL | STALE
  | STARTUP_FAILURE

datatype CIResult = Pass | Fail | Pending | Missing

record Actor =
  login :: string

record App =
  app_name :: "string option"

record CheckSuite =
  app :: "App option"
  conclusion :: "CheckConclusionState option"
  url :: string

record Commit =
  oid :: string
  abbreviatedOid :: string
  pushedDate :: DateTime
  checkSuites :: "CheckSuite nodes option"

record CommitNode =
  commit :: Commit

record ReviewCommit =
  rc_oid :: string
  rc_abbreviatedOid :: string

record ReviewComment =
  rcm_author :: "Actor option"
  rcm_createdAt :: DateTime

record Review =
  r_commit :: "ReviewCommit option"
  r_author :: "Actor option"
  r_state :: PullRequestReviewState
  r_authorAssociation :: CommentAuthorAssociation
  r_submittedAt :: DateTime
  r_comments :: "ReviewComment nodes option"

datatype TimelineItem =
    ReopenedEvent DateTime
  | ReadyForReviewEvent DateTime
  | IssueComment "Actor option" DateTime
  | MovedColumnsInProjectEvent "Actor option" DateTime
  | OtherTimelineItem

record Comment =
  c_author :: "Actor option"
  c_body :: string

record ChangedFile =
  f_path :: string

record PullRequest =
  number :: int
  author :: "Actor option"
  state :: PullRequestState
  isDraft :: bool
  headRefOid :: string
  authorAssociation :: CommentAuthorAssociation
  mergeable :: MergeableState
  commits :: "CommitNode nodes"
  files :: "ChangedFile nodes option"
  reviews :: "Review nodes option"
  timelineItems :: "TimelineItem nodes"
  comments :: "Comment nodes"

text \<open>\<^verbatim>\<open>info.data.repository?.pullRequest\<close>: the repository may be null, and the pull request.\<close>

record QueryResult =
  repository :: "PullRequest option option"

text \<open>\<^verbatim>\<open>item.createdAt\<close> of the timeline items that have one.\<close>

fun createdAt :: "TimelineItem \<Rightarrow> DateTime option" where
  "createdAt (ReopenedEvent d) = Some d"
| "createdAt (ReadyForReviewEvent d) = Some d"
| "createdAt (IssueComment a d) = Some d"
| "createdAt (MovedColumnsInProjectEvent a d) = Some d"
| "createdAt OtherTimelineItem = None"

section \<open>Collaborators\<close>

text \<open>
  What the module imports and does not define: the header parser of
  \<^verbatim>\<open>definitelytyped-header-parser\<close>, the helpers of \<^verbatim>\<open>util/util\<close> and \<^verbatim>\<open>util/npm\<close>,
  and the runtime's \<^verbatim>\<open>JSON\<close> and string functions. They are parameters of the model.
  \<^item> \<open>JSON_parse\<close> is \<open>None\<close> where \<^verbatim>\<open>JSON.parse\<close> throws its \<^verbatim>\<open>SyntaxError\<close>.
  \<^item> \<open>parseHeaderOrFail\<close> is \<open>Inl message\<close> where the parser throws an error with that
    message.
  \<^item> \<open>inheritedProperty\<close> answers for the names that the function object \<^verbatim>\<open>configOK\<close> has
    without the module assigning them (\<^verbatim>\<open>length\<close>, \<^verbatim>\<open>toString\<close>, \<^verbatim>\<open>constructor\<close>, ...): what
    calling such a property with the text gives, read as a truth value, or the exception
    it throws.
\<close>

record Author =
  githubUsername :: "string option"

record Header =
  contributors :: "Author list"

text \<open>A value that \<^verbatim>\<open>JSON.parse\<close> returns.\<close>

datatype json =
    JNull
  | JBool bool
  | JNumber real
  | JString string
  | JArray "json list"
  | JObject "(string \<times> json) list"

record collaborators =
  JSON_parse :: "string \<Rightarrow> json option"
  JSON_stringify :: "json \<Rightarrow> string"
  inheritedProperty :: "string \<Rightarrow> (string \<Rightarrow> js_error + bool) option"
  parseHeaderOrFail :: "string \<Rightarrow> string + Header"
  daysSince :: "DateTime \<Rightarrow> DateTime \<Rightarrow> int"
  authorNotBot :: "TimelineItem \<Rightarrow> bool"
  getMonthlyDownloadCount :: "string \<Rightarrow> int"
  toLowerCase :: "string \<Rightarrow> string"
  trim :: "string \<Rightarrow> string"

text \<open>
  \<^verbatim>\<open>fetchFile(path, maxBytes?)\<close> answers with the content or with \<^verbatim>\<open>undefined\<close>. A
  computation that may fetch takes the log of the requests made so far and returns it
  extended.
\<close>

type_synonym fetchFile = "string \<Rightarrow> nat option \<Rightarrow> string option"

type_synonym fetch_log = "(string \<times> nat option) list"

definition fetch :: "fetchFile \<Rightarrow> string \<Rightarrow> nat option \<Rightarrow> fetch_log \<Rightarrow> string option \<times> fetch_log" where
  "fetch fetchFile p maxBytes lg = (fetchFile p maxBytes, lg @ [(p, maxBytes)])"

text \<open>\<^verbatim>\<open>noNulls\<close>.\<close>

definition noNulls :: "'a nodes \<Rightarrow> 'a list" where
  "noNulls arr = (case arr of None \<Rightarrow> [] | Some xs \<Rightarrow> List.map_filter (\<lambda>x. x) xs)"

text \<open>\<^verbatim>\<open>x?.nodes\<close> for a connection \<open>x\<close> that may be null.\<close>

definition nodes_of :: "'a nodes option \<Rightarrow> 'a nodes" where
  "nodes_of x = (case x of None \<Rightarrow> None | Some n \<Rightarrow> n)"

section \<open>File classifier\<close>

text \<open>
  The two rules the module registers on \<^verbatim>\<open>configOK\<close>. The first: not empty, and on every
  line that is not empty every part between slashes is not empty and not all dots
  (\<^verbatim>\<open>/^\.+$/\<close>).
\<close>

definition configOK_OTHER_FILES :: "string \<Rightarrow> bool" where
  "configOK_OTHER_FILES contents =
     (length contents > 0 \<and>
      list_all (\<lambda>line. line = [] \<or>
          list_all (\<lambda>part. length part > 0 \<and> \<not> (part \<noteq> [] \<and> list_all (\<lambda>c. c = CHR ''.'') part))
            (split_on CHR ''/'' line))
        (split_on CHR 0x0A contents))"

text \<open>
  The second: \<^verbatim>\<open>JSON.stringify(JSON.parse(contents)) === JSON.stringify({ "extends":
  "dtslint/dt.json" })\<close>. Nothing catches what \<^verbatim>\<open>JSON.parse\<close> throws.
\<close>

definition configOK_tslint :: "collaborators \<Rightarrow> string \<Rightarrow> js_error + bool" where
  "configOK_tslint env contents =
     (case JSON_parse env contents of
        None \<Rightarrow> Inl SyntaxError
      | Some v \<Rightarrow>
          Inr (JSON_stringify env v =
               JSON_stringify env (JObject [(''extends'', JString ''dtslint/dt.json'')])))"

text \<open>
  \<^verbatim>\<open>basename in configOK\<close> and \<^verbatim>\<open>configOK[basename]\<close>: the two registered rules, and
  otherwise what the function object has of its own accord.
\<close>

definition configOK_rule :: "collaborators \<Rightarrow> string \<Rightarrow> (string \<Rightarrow> js_error + bool) option" where
  "configOK_rule env basename =
     (if basename = ''OTHER_FILES.txt'' then Some (\<lambda>text. Inr (configOK_OTHER_FILES text))
      else if basename = ''tslint.json'' then Some (configOK_tslint env)
      else inheritedProperty env basename)"

text \<open>
  \<^verbatim>\<open>configOK(path, getContents)\<close>. The accessor \<open>getContents\<close> is a computation on a
  state \<open>'s\<close> (the fetch log, for the caller in this module); it runs only when the
  basename has a rule.
\<close>

definition configOK ::
  "collaborators \<Rightarrow> string \<Rightarrow> ('s \<Rightarrow> string option \<times> 's) \<Rightarrow> 's \<Rightarrow> (js_error + bool) \<times> 's" where
  "configOK env p getContents s =
     (let basename = remove_directories p in
      case configOK_rule env basename of
        None \<Rightarrow> (Inr False, s)
      | Some rule \<Rightarrow>
          (case getContents s of
             (None, s') \<Rightarrow> (Inr False, s')
           | (Some text, s') \<Rightarrow> (rule text, s')))"

text \<open>\<^verbatim>\<open>categorizeFile(path, contents)\<close>.\<close>

definition categorizeFile ::
  "collaborators \<Rightarrow> string \<Rightarrow> ('s \<Rightarrow> string option \<times> 's) \<Rightarrow> 's \<Rightarrow> (js_error + FileInfo) \<times> 's" where
  "categorizeFile env p contents s =
     (case path_pattern_exec p of
        None \<Rightarrow> (Inr \<lparr>path = p, kind = K_infrastructure, package = None\<rparr>, s)
      | Some (pkg, suffix) \<Rightarrow>
          (let sfx = (case suffix of None \<Rightarrow> [] | Some x \<Rightarrow> x) in
           if sfx = ''d.ts'' then (Inr \<lparr>path = p, kind = K_definition, package = Some pkg\<rparr>, s)
           else if sfx = ''ts'' \<or> sfx = ''tsx'' then
             (Inr \<lparr>path = p, kind = K_test, package = Some pkg\<rparr>, s)
           else if sfx = ''md'' then (Inr \<lparr>path = p, kind = K_markdown, package = Some pkg\<rparr>, s)
           else
             (case configOK env p contents s of
                (Inl e, s') \<Rightarrow> (Inl e, s')
              | (Inr ok, s') \<Rightarrow>
                  (Inr \<lparr>path = p, kind = (if ok then K_package_meta_ok else K_package_meta),
                        package = Some pkg\<rparr>, s'))))"

text \<open>
  \<^verbatim>\<open>getPackagesTouched\<close>: the packages of the files, each once, in the order of first
  occurrence (the order in which a \<^verbatim>\<open>Set\<close> keeps what is added to it).
\<close>

fun set_add_all :: "'a list \<Rightarrow> 'a list \<Rightarrow> 'a list" where
  "set_add_all acc [] = acc"
| "set_add_all acc (x # xs) = set_add_all (if x \<in> set acc then acc else acc @ [x]) xs"

definition getPackagesTouched :: "FileInfo list \<Rightarrow> string list" where
  "getPackagesTouched fs = set_add_all [] (noNulls (Some (map package fs)))"

section \<open>Danger and popularity\<close>

text \<open>\<^verbatim>\<open>getDangerLevel\<close>.\<close>

definition getDangerLevel :: "FileInfo list \<Rightarrow> DangerLevel" where
  "getDangerLevel categorizedFiles =
     (if list_ex (\<lambda>f. kind f = K_infrastructure) categorizedFiles then Infrastructure
      else
        (let packagesTouched = getPackagesTouched categorizedFiles in
         if length packagesTouched = 0 then Infrastructure
         else if length packagesTouched > 1 then MultiplePackagesEdited
         else if list_ex (\<lambda>f. kind f = K_package_meta) categorizedFiles then ScopedAndConfiguration
         else if list_ex (\<lambda>f. kind f = K_test) categorizedFiles then ScopedAndTested
         else ScopedAndUntested))"

text \<open>
  \<^verbatim>\<open>getPopularityLevelFromDownloads\<close>. The record of downloads per package is the list of
  its entries in the order \<^verbatim>\<open>for ... in\<close> visits them; the loop carries the level found
  so far and returns at once on a critical package.
\<close>

fun popularity_loop :: "PopularityLevel \<Rightarrow> (string \<times> int) list \<Rightarrow> PopularityLevel" where
  "popularity_loop popularityLevel [] = popularityLevel"
| "popularity_loop popularityLevel ((packageName, downloads) # rest) =
     (if downloads > CriticalPopularityThreshold then Critical
      else if downloads > NormalPopularityThreshold then popularity_loop Popular rest
      else popularity_loop popularityLevel rest)"

definition getPopularityLevelFromDownloads :: "(string \<times> int) list \<Rightarrow> PopularityLevel" where
  "getPopularityLevelFromDownloads downloadsPerPackage =
     popularity_loop WellLikedByEveryone downloadsPerPackage"

text \<open>\<^verbatim>\<open>getPopularityLevel\<close>: the same loop over the packages, asking for each count.\<close>

definition getPopularityLevel :: "collaborators \<Rightarrow> string list \<Rightarrow> PopularityLevel" where
  "getPopularityLevel env packagesTouched =
     popularity_loop WellLikedByEveryone
       (map (\<lambda>p. (p, getMonthlyDownloadCount env p)) packagesTouched)"

section \<open>Owner resolver\<close>

record OwnerInfo =
  oi_anyPackageIsNew :: bool
  oi_allOwners :: "string list"
  oi_error :: "string option"

text \<open>
  \<^verbatim>\<open>getOwnersForPackage\<close>: \<open>Inl message\<close> when the header parser throws, \<open>Inr None\<close> when
  the file is absent, and otherwise the user names of the contributors that have one.
\<close>

definition getOwnersForPackage ::
  "collaborators \<Rightarrow> string \<Rightarrow> fetchFile \<Rightarrow> fetch_log \<Rightarrow> (string + string list option) \<times> fetch_log" where
  "getOwnersForPackage env packageName fetchFile lg =
     (let indexDts = ''master:types/'' @ packageName @ ''/index.d.ts'' in
      case fetch fetchFile indexDts (Some 10240) lg of
        (None, lg') \<Rightarrow> (Inr None, lg')
      | (Some indexDtsContent, lg') \<Rightarrow>
          (case parseHeaderOrFail env indexDtsContent of
             Inl message \<Rightarrow> (Inl message, lg')
           | Inr parsed \<Rightarrow>
               (Inr (Some (List.map_filter githubUsername (contributors parsed))), lg')))"

text \<open>
  The loop of \<^verbatim>\<open>getOwnersOfPackages\<close>; the first equation is the end of the packages, the
  \<open>Inl\<close> case is the \<^verbatim>\<open>break\<close> of the \<^verbatim>\<open>catch\<close> block.
\<close>

fun owners_loop ::
  "collaborators \<Rightarrow> fetchFile \<Rightarrow> string list \<Rightarrow> OwnerInfo \<Rightarrow> fetch_log \<Rightarrow> OwnerInfo \<times> fetch_log" where
  "owners_loop env fetchFile [] st lg = (st, lg)"
| "owners_loop env fetchFile (p # ps) st lg =
     (case getOwnersForPackage env p fetchFile lg of
        (Inl message, lg') \<Rightarrow> (st\<lparr>oi_error := Some (''error parsing owners: '' @ message)\<rparr>, lg')
      | (Inr None, lg') \<Rightarrow> owners_loop env fetchFile ps (st\<lparr>oi_anyPackageIsNew := True\<rparr>) lg'
      | (Inr (Some owners), lg') \<Rightarrow>
          owners_loop env fetchFile ps
            (st\<lparr>oi_allOwners := set_add_all (oi_allOwners st) owners\<rparr>) lg')"

definition getOwnersOfPackages ::
  "collaborators \<Rightarrow> string list \<Rightarrow> fetchFile \<Rightarrow> fetch_log \<Rightarrow> OwnerInfo \<times> fetch_log" where
  "getOwnersOfPackages env packages fetchFile lg =
     owners_loop env fetchFile packages
       \<lparr>oi_anyPackageIsNew = False, oi_allOwners = [], oi_error = None\<rparr> lg"

section \<open>Timeline extractor\<close>

text \<open>
  Modelled from the spec: \<^verbatim>\<open>findLast\<close> of \<^verbatim>\<open>util/util\<close>, which is not among the sources.
  The spec's words: a single reusable ``find last element satisfying predicate'' operation
  over an ordered sequence; a sequence that is null has no such element.
\<close>

definition findLast :: "'a nodes \<Rightarrow> ('a option \<Rightarrow> bool) \<Rightarrow> 'a option" where
  "findLast arr predicate =
     (case arr of
        None \<Rightarrow> None
      | Some xs \<Rightarrow> (case filter predicate (rev xs) of [] \<Rightarrow> None | x # _ \<Rightarrow> x))"

text \<open>
  Modelled from the spec: \<^verbatim>\<open>forEachReverse\<close> of \<^verbatim>\<open>util/util\<close>, which is not among the
  sources. The spec's words: ``scanning reviews newest-first'', the first defined answer
  being the result.
\<close>

definition forEachReverse :: "'a nodes \<Rightarrow> ('a option \<Rightarrow> 'b option) \<Rightarrow> 'b option" where
  "forEachReverse arr action =
     (case arr of
        None \<Rightarrow> None
      | Some xs \<Rightarrow> (case List.map_filter action (rev xs) of [] \<Rightarrow> None | y # _ \<Rightarrow> Some y))"

text \<open>
  \<^verbatim>\<open>getReopenedDate\<close>. A timestamp is never the empty text, so
  \<^verbatim>\<open>lastItem.createdAt && new Date(lastItem.createdAt)\<close> is the date.
\<close>

definition getReopenedDate :: "TimelineItem nodes \<Rightarrow> DateTime option" where
  "getReopenedDate items =
     (case findLast items
             (\<lambda>item. case item of
                        Some (ReopenedEvent d) \<Rightarrow> True
                      | Some (ReadyForReviewEvent d) \<Rightarrow> True
                      | _ \<Rightarrow> False) of
        None \<Rightarrow> None
      | Some lastItem \<Rightarrow> createdAt lastItem)"

text \<open>
  \<^verbatim>\<open>getLastCommentishActivityDate\<close>. The second element of the two sorted timestamps is
  the later one.
\<close>

definition getLastCommentishActivityDate ::
  "collaborators \<Rightarrow> TimelineItem nodes \<Rightarrow> Review nodes option \<Rightarrow> DateTime option" where
  "getLastCommentishActivityDate env items rvs =
     (let lastIssueComment =
            findLast items
              (\<lambda>item. case item of
                         Some (IssueComment a d) \<Rightarrow> authorNotBot env (IssueComment a d)
                       | _ \<Rightarrow> False);
          lastReviewComment =
            forEachReverse (nodes_of rvs)
              (\<lambda>review.
                 findLast (case review of None \<Rightarrow> None | Some r \<Rightarrow> nodes_of (r_comments r))
                   (\<lambda>comment. case comment of
                                 None \<Rightarrow> False
                               | Some c \<Rightarrow>
                                   (case rcm_author c of
                                      None \<Rightarrow> False
                                    | Some a \<Rightarrow> login a \<noteq> [])))
      in case (lastIssueComment, lastReviewComment) of
           (Some ic, Some rc) \<Rightarrow>
             (case createdAt ic of
                Some d \<Rightarrow> Some (max d (rcm_createdAt rc))
              | None \<Rightarrow> Some (rcm_createdAt rc))
         | (Some ic, None) \<Rightarrow> createdAt ic
         | (None, Some rc) \<Rightarrow> Some (rcm_createdAt rc)
         | (None, None) \<Rightarrow> None)"

text \<open>\<^verbatim>\<open>getLastMaintainerBlessingDate\<close>.\<close>

definition getLastMaintainerBlessingDate :: "collaborators \<Rightarrow> TimelineItem nodes \<Rightarrow> DateTime option" where
  "getLastMaintainerBlessingDate env items =
     (case findLast items
             (\<lambda>item. case item of
                        Some (MovedColumnsInProjectEvent a d) \<Rightarrow>
                          authorNotBot env (MovedColumnsInProjectEvent a d)
                      | _ \<Rightarrow> False) of
        None \<Rightarrow> None
      | Some lastColumnChange \<Rightarrow> createdAt lastColumnChange)"

section \<open>Review reconciler\<close>

text \<open>\<^verbatim>\<open>enum ApprovalFlags\<close>, a bit set.\<close>

definition ApprovalFlags_None :: int where "ApprovalFlags_None = 0"
definition ApprovalFlags_Other :: int where "ApprovalFlags_Other = push_bit 0 1"
definition ApprovalFlags_Owner :: int where "ApprovalFlags_Owner = push_bit 1 1"
definition ApprovalFlags_Maintainer :: int where "ApprovalFlags_Maintainer = push_bit 2 1"

text \<open>
  A keyed store that keeps the order of insertion (\<^verbatim>\<open>Map\<close>, and an object's own keys):
  \<^verbatim>\<open>set\<close> replaces the value of a key that is present, where it stands, and otherwise adds
  the entry at the end.
\<close>

fun map_set :: "'k \<Rightarrow> 'v \<Rightarrow> ('k \<times> 'v) list \<Rightarrow> ('k \<times> 'v) list" where
  "map_set k v [] = [(k, v)]"
| "map_set k v ((k', v') # m) = (if k' = k then (k, v) # m else (k', v') # map_set k v m)"

record StaleReview =
  sr_reviewer :: string
  sr_date :: DateTime

record StaleReviewer =
  reviewedAbbrOid :: string
  reviewer :: string
  date :: DateTime

record ReviewAnalysis =
  lastReviewDate :: "DateTime option"
  reviewersWithStaleReviews :: "StaleReviewer list"
  approvalFlags :: int
  isChangesRequested :: bool

text \<open>The variables that the loop of \<^verbatim>\<open>analyzeReviews\<close> updates.\<close>

record review_loop =
  hasUpToDateReview :: "string set"
  staleReviewAuthorsByCommit :: "(string \<times> StaleReview) list"
  cur_lastReviewDate :: "DateTime option"
  cur_isChangesRequested :: bool
  cur_approvalFlags :: int

text \<open>
  \<^verbatim>\<open>!r?.commit || !r?.author?.login\<close>: the review, its commit or its author is null, or
  the login is the empty string.
\<close>

definition review_skipped_as_null :: "Review option \<Rightarrow> bool" where
  "review_skipped_as_null r =
     (case r of
        None \<Rightarrow> True
      | Some rv \<Rightarrow>
          r_commit rv = None \<or> (case r_author rv of None \<Rightarrow> True | Some a \<Rightarrow> login a = []))"

text \<open>
  One turn of the loop, for a review that passed the null check: \<open>c\<close> is its commit and
  \<open>reviewerLogin\<close> its author's login; \<open>authorLogin\<close> is the login of the author of the pull
  request.
\<close>

definition review_step ::
  "string \<Rightarrow> string \<Rightarrow> (string \<Rightarrow> bool) \<Rightarrow> Review \<Rightarrow> ReviewCommit \<Rightarrow> string \<Rightarrow> review_loop \<Rightarrow> review_loop" where
  "review_step authorLogin headCommitOid isOwner rv c reviewerLogin st =
     (if reviewerLogin = authorLogin then st
      else if rc_oid c \<noteq> headCommitOid then
        (if reviewerLogin \<notin> hasUpToDateReview st then
           st\<lparr>staleReviewAuthorsByCommit :=
                map_set (rc_abbreviatedOid c)
                  \<lparr>sr_reviewer = reviewerLogin, sr_date = r_submittedAt rv\<rparr>
                  (staleReviewAuthorsByCommit st)\<rparr>
         else st)
      else if reviewerLogin \<notin> hasUpToDateReview st then
        (let reviewDate = r_submittedAt rv;
             st1 = st\<lparr>hasUpToDateReview := insert reviewerLogin (hasUpToDateReview st),
                      cur_lastReviewDate :=
                        (case cur_lastReviewDate st of
                           None \<Rightarrow> Some reviewDate
                         | Some l \<Rightarrow> if l > reviewDate then Some l else Some reviewDate)\<rparr>
         in if r_state rv = CHANGES_REQUESTED then st1\<lparr>cur_isChangesRequested := True\<rparr>
            else if r_state rv = APPROVED then
              (if r_authorAssociation rv = MEMBER \<or> r_authorAssociation rv = OWNER then
                 st1\<lparr>cur_approvalFlags := cur_approvalFlags st1 OR ApprovalFlags_Maintainer\<rparr>
               else if isOwner reviewerLogin then
                 st1\<lparr>cur_approvalFlags := cur_approvalFlags st1 OR ApprovalFlags_Owner\<rparr>
               else st1\<lparr>cur_approvalFlags := cur_approvalFlags st1 OR ApprovalFlags_Other\<rparr>)
            else st1)
      else st)"

text \<open>The loop over the reversed reviews.\<close>

fun review_loop_run ::
  "string \<Rightarrow> string \<Rightarrow> (string \<Rightarrow> bool) \<Rightarrow> Review option list \<Rightarrow> review_loop \<Rightarrow> review_loop" where
  "review_loop_run authorLogin headCommitOid isOwner [] st = st"
| "review_loop_run authorLogin headCommitOid isOwner (r # rs) st =
     (case r of
        None \<Rightarrow> review_loop_run authorLogin headCommitOid isOwner rs st
      | Some rv \<Rightarrow>
          (case (r_commit rv, r_author rv) of
             (Some c, Some a) \<Rightarrow>
               if login a = [] then review_loop_run authorLogin headCommitOid isOwner rs st
               else review_loop_run authorLogin headCommitOid isOwner rs
                      (review_step authorLogin headCommitOid isOwner rv c (login a) st)
           | _ \<Rightarrow> review_loop_run authorLogin headCommitOid isOwner rs st))"

definition review_loop_init :: review_loop where
  "review_loop_init =
     \<lparr>hasUpToDateReview = {}, staleReviewAuthorsByCommit = [], cur_lastReviewDate = None,
      cur_isChangesRequested = False, cur_approvalFlags = ApprovalFlags_None\<rparr>"

definition review_result :: "review_loop \<Rightarrow> ReviewAnalysis" where
  "review_result st =
     \<lparr>lastReviewDate = cur_lastReviewDate st,
      reviewersWithStaleReviews =
        map (\<lambda>(c, info). \<lparr>reviewedAbbrOid = c, reviewer = sr_reviewer info, date = sr_date info\<rparr>)
          (staleReviewAuthorsByCommit st),
      approvalFlags = cur_approvalFlags st,
      isChangesRequested = cur_isChangesRequested st\<rparr>"

text \<open>
  \<^verbatim>\<open>analyzeReviews\<close>. The non-null assertion \<^verbatim>\<open>prInfo.author!.login\<close> is evaluated for every
  review that passes the null check: with a null author it throws a \<^verbatim>\<open>TypeError\<close> at the
  first such review.
\<close>

definition analyzeReviews :: "PullRequest \<Rightarrow> (string \<Rightarrow> bool) \<Rightarrow> js_error + ReviewAnalysis" where
  "analyzeReviews prInfo isOwner =
     (let rvs = rev (case nodes_of (reviews prInfo) of None \<Rightarrow> [] | Some xs \<Rightarrow> xs) in
      case author prInfo of
        None \<Rightarrow>
          if list_ex (\<lambda>r. \<not> review_skipped_as_null r) rvs then Inl TypeError
          else Inr (review_result review_loop_init)
      | Some a \<Rightarrow>
          Inr (review_result
                 (review_loop_run (login a) (headRefOid prInfo) isOwner rvs review_loop_init)))"

section \<open>The orchestrator\<close>

text \<open>\<^verbatim>\<open>getHeadCommit\<close>: the first commit node whose oid is the head's.\<close>

definition getHeadCommit :: "PullRequest \<Rightarrow> Commit option" where
  "getHeadCommit pr =
     (case commits pr of
        None \<Rightarrow> None
      | Some ns \<Rightarrow>
          (case filter (\<lambda>c. case c of None \<Rightarrow> False | Some n \<Rightarrow> oid (commit n) = headRefOid pr) ns of
             [] \<Rightarrow> None
           | c # _ \<Rightarrow> map_option commit c))"

text \<open>\<^verbatim>\<open>getCIResult\<close>: the result and the link to the log.\<close>

definition getCIResult :: "Commit \<Rightarrow> CIResult \<times> string option" where
  "getCIResult headCommit =
     (let totalStatusChecks =
            (case nodes_of (checkSuites headCommit) of
               None \<Rightarrow> None
             | Some ns \<Rightarrow>
                 (case filter
                         (\<lambda>check. case check of
                                     None \<Rightarrow> False
                                   | Some ch \<Rightarrow>
                                       (case app ch of
                                          None \<Rightarrow> False
                                        | Some ap \<Rightarrow>
                                            (case app_name ap of
                                               None \<Rightarrow> False
                                             | Some n \<Rightarrow> includes_str n ''GitHub Actions''))) ns of
                    [] \<Rightarrow> None
                  | ch # _ \<Rightarrow> ch))
      in case totalStatusChecks of
           None \<Rightarrow> (Missing, None)
         | Some ch \<Rightarrow>
             (if conclusion ch = Some SUCCESS then (Pass, None)
              else if conclusion ch = Some FAILURE \<or> conclusion ch = Some SKIPPED
                      \<or> conclusion ch = Some TIMED_OUT then (Fail, Some (url ch))
              else (Pending, None)))"

text \<open>\<^verbatim>\<open>authorSaysReadyToMerge\<close>.\<close>

definition authorSaysReadyToMerge :: "collaborators \<Rightarrow> PullRequest \<Rightarrow> bool" where
  "authorSaysReadyToMerge env info =
     (case comments info of
        None \<Rightarrow> False
      | Some cs \<Rightarrow>
          list_ex
            (\<lambda>comment.
               (case comment of None \<Rightarrow> None | Some c \<Rightarrow> map_option login (c_author c))
                 = map_option login (author info)
               \<and> (case comment of
                     None \<Rightarrow> False
                   | Some c \<Rightarrow>
                       startsWith (toLowerCase env (trim env (c_body c))) ''ready to merge''))
            cs)"

text \<open>\<^verbatim>\<open>partition\<close>: the elements by key, the keys in the order of their first element.\<close>

fun partition_loop :: "('k \<times> 'a list) list \<Rightarrow> 'a list \<Rightarrow> ('a \<Rightarrow> 'k) \<Rightarrow> ('k \<times> 'a list) list" where
  "partition_loop res [] sorter = res"
| "partition_loop res (el # arr) sorter =
     partition_loop
       (map_set (sorter el)
          ((case map_of res (sorter el) of None \<Rightarrow> [] | Some target \<Rightarrow> target) @ [el]) res)
       arr sorter"

definition partition_by :: "'a list \<Rightarrow> ('a \<Rightarrow> 'k) \<Rightarrow> ('k \<times> 'a list) list" where
  "partition_by arr sorter = partition_loop [] arr sorter"

text \<open>
  The \<^verbatim>\<open>info\<close> payload. The fields of the review analysis are spread into it. Two fields
  are renamed, \<open>info_author\<close> and \<open>info_files\<close>, since \<open>author\<close> and \<open>files\<close> are fields of
  the pull request.
\<close>

record PrInfo = ReviewAnalysis +
  now :: DateTime
  pr_number :: int
  headCommitOid :: string
  headCommitAbbrOid :: string
  authorIsOwner :: bool
  info_author :: string
  owners :: "string list"
  mergeIsRequested :: bool
  ciResult :: CIResult
  ciUrl :: "string option"
  hasMergeConflict :: bool
  lastPushDate :: DateTime
  lastCommentDate :: DateTime
  reopenedDate :: "DateTime option"
  reviewLink :: string
  dangerLevel :: DangerLevel
  stalenessInDays :: int
  anyPackageIsNew :: bool
  maintainerBlessed :: bool
  hasDismissedReview :: bool
  isFirstContribution :: bool
  popularityLevel :: PopularityLevel
  packages :: "string list"
  info_files :: "FileInfo list"

text \<open>The five variants of the result, with the value of their \<^verbatim>\<open>type\<close> field.\<close>

datatype Result =
    BotFail string
  | BotError int string "string option"
  | BotEnsureRemovedFromProject int string
  | BotNoPackages int
  | Info PrInfo

fun result_type :: "Result \<Rightarrow> string" where
  "result_type (BotFail message) = ''fail''"
| "result_type (BotError n message a) = ''error''"
| "result_type (BotEnsureRemovedFromProject n message) = ''remove''"
| "result_type (BotNoPackages n) = ''no_packages''"
| "result_type (Info i) = ''info''"

text \<open>
  The files are categorized one after the other up to the point where each waits for its
  content, so the requests are made in the order of the files, for all of them.
  \<^verbatim>\<open>Promise.all\<close> then gives all the results, or the rejection.
\<close>

fun categorize_each ::
  "collaborators \<Rightarrow> fetchFile \<Rightarrow> string \<Rightarrow> ChangedFile list \<Rightarrow> fetch_log \<Rightarrow>
     (js_error + FileInfo) list \<times> fetch_log" where
  "categorize_each env fetchFile headOid [] lg = ([], lg)"
| "categorize_each env fetchFile headOid (f # fs) lg =
     (case categorizeFile env (f_path f) (fetch fetchFile (headOid @ '':'' @ f_path f) None) lg of
        (r, lg1) \<Rightarrow>
          (case categorize_each env fetchFile headOid fs lg1 of
             (rs, lg2) \<Rightarrow> (r # rs, lg2)))"

fun Promise_all :: "('e + 'a) list \<Rightarrow> 'e + 'a list" where
  "Promise_all [] = Inr []"
| "Promise_all (Inl e # rs) = Inl e"
| "Promise_all (Inr x # rs) = (case Promise_all rs of Inl e \<Rightarrow> Inl e | Inr xs \<Rightarrow> Inr (x # xs))"

definition categorizeFiles ::
  "collaborators \<Rightarrow> fetchFile \<Rightarrow> string \<Rightarrow> ChangedFile list \<Rightarrow> fetch_log \<Rightarrow>
     (js_error + FileInfo list) \<times> fetch_log" where
  "categorizeFiles env fetchFile headOid fs lg =
     (case categorize_each env fetchFile headOid fs lg of (rs, lg') \<Rightarrow> (Promise_all rs, lg'))"

text \<open>\<^verbatim>\<open>isOwner\<close>, the local function of \<^verbatim>\<open>deriveStateForPR\<close>.\<close>

definition isOwner :: "collaborators \<Rightarrow> string list \<Rightarrow> string \<Rightarrow> bool" where
  "isOwner env allOwners lgn = list_ex (\<lambda>k. toLowerCase env k = toLowerCase env lgn) allOwners"

text \<open>
  The last step of \<^verbatim>\<open>deriveStateForPR\<close>, from the line that computes \<^verbatim>\<open>authorIsOwner\<close>
  to the object that is returned; \<open>nowDate\<close> is what \<^verbatim>\<open>getNow()\<close> answers. The partition
  of the approvals by role, which the source marks as unused, is left out.
\<close>

definition assemble_info ::
  "collaborators \<Rightarrow> PullRequest \<Rightarrow> Actor \<Rightarrow> Commit \<Rightarrow> FileInfo list \<Rightarrow> string list \<Rightarrow>
     OwnerInfo \<Rightarrow> (string list \<Rightarrow> (string \<times> int) list) option \<Rightarrow> DateTime \<Rightarrow> js_error + PrInfo" where
  "assemble_info env prInfo prAuthor headCommit categorizedFiles pkgs ownerInfo getDownloads nowDate =
     (let allOwners = oi_allOwners ownerInfo;
          authorIsOwner' = isOwner env allOwners (login prAuthor);
          isFirstContribution' = (authorAssociation prInfo = FIRST_TIME_CONTRIBUTOR);
          freshReviewsByState = partition_by (noNulls (nodes_of (reviews prInfo))) r_state;
          hasDismissedReview' =
            (case map_of freshReviewsByState DISMISSED of
               None \<Rightarrow> False
             | Some rs \<Rightarrow> length rs \<noteq> 0);
          lastPushDate' = pushedDate headCommit;
          lastCommentDate' =
            (case getLastCommentishActivityDate env (timelineItems prInfo) (reviews prInfo) of
               None \<Rightarrow> lastPushDate'
             | Some d \<Rightarrow> d);
          reopenedDate' = getReopenedDate (timelineItems prInfo);
          now' = nowDate
      in case analyzeReviews prInfo (isOwner env allOwners) of
           Inl e \<Rightarrow> Inl e
         | Inr reviewAnalysis \<Rightarrow>
             (let lastBlessing = getLastMaintainerBlessingDate env (timelineItems prInfo);
                  ci = getCIResult headCommit
              in Inr
                \<lparr>lastReviewDate = lastReviewDate reviewAnalysis,
                 reviewersWithStaleReviews = reviewersWithStaleReviews reviewAnalysis,
                 approvalFlags = approvalFlags reviewAnalysis,
                 isChangesRequested = isChangesRequested reviewAnalysis,
                 now = now',
                 pr_number = number prInfo,
                 headCommitOid = oid headCommit,
                 headCommitAbbrOid = abbreviatedOid headCommit,
                 authorIsOwner = authorIsOwner',
                 info_author = login prAuthor,
                 owners = allOwners,
                 mergeIsRequested = authorSaysReadyToMerge env prInfo,
                 ciResult = fst ci,
                 ciUrl = snd ci,
                 hasMergeConflict = (mergeable prInfo = CONFLICTING),
                 lastPushDate = lastPushDate',
                 lastCommentDate = lastCommentDate',
                 reopenedDate = reopenedDate',
                 reviewLink =
                   ''https://github.com/DefinitelyTyped/DefinitelyTyped/pull/''
                     @ string_of_int (number prInfo) @ ''/files'',
                 dangerLevel = getDangerLevel categorizedFiles,
                 stalenessInDays =
                   Min (set (map (\<lambda>d. daysSince env (case d of None \<Rightarrow> lastPushDate' | Some x \<Rightarrow> x) now')
                               [Some lastPushDate', Some lastCommentDate', reopenedDate',
                                lastReviewDate reviewAnalysis])),
                 anyPackageIsNew = oi_anyPackageIsNew ownerInfo,
                 maintainerBlessed =
                   (case lastBlessing of None \<Rightarrow> False | Some b \<Rightarrow> b > lastPushDate'),
                 hasDismissedReview = hasDismissedReview',
                 isFirstContribution = isFirstContribution',
                 popularityLevel =
                   (case getDownloads of
                      Some gd \<Rightarrow> getPopularityLevelFromDownloads (gd pkgs)
                    | None \<Rightarrow> getPopularityLevel env pkgs),
                 packages = pkgs,
                 info_files = categorizedFiles\<rparr>))"

text \<open>
  \<^verbatim>\<open>deriveStateForPR(info, fetchFile, getDownloads, getNow)\<close>; \<open>pullRequest\<close> is
  \<^verbatim>\<open>info.data.repository?.pullRequest\<close>. \<^verbatim>\<open>if (error)\<close> holds for a message that is not the
  empty string.
\<close>

definition pullRequest :: "QueryResult \<Rightarrow> PullRequest option" where
  "pullRequest info = (case repository info of None \<Rightarrow> None | Some r \<Rightarrow> r)"

definition deriveStateForPR ::
  "collaborators \<Rightarrow> QueryResult \<Rightarrow> fetchFile \<Rightarrow> (string list \<Rightarrow> (string \<times> int) list) option \<Rightarrow>
     DateTime \<Rightarrow> fetch_log \<Rightarrow> (js_error + Result) \<times> fetch_log" where
  "deriveStateForPR env info fetchFile getDownloads nowDate lg =
     (case pullRequest info of
        None \<Rightarrow> (Inr (BotFail ''No PR with this number exists''), lg)
      | Some prInfo \<Rightarrow>
          (case author prInfo of
             None \<Rightarrow> (Inr (BotError (number prInfo) ''PR author does not exist'' None), lg)
           | Some prAuthor \<Rightarrow>
               (case getHeadCommit prInfo of
                  None \<Rightarrow>
                    (Inr (BotError (number prInfo) ''No head commit found''
                            (Some (login prAuthor))), lg)
                | Some headCommit \<Rightarrow>
                    if state prInfo \<noteq> OPEN then
                      (Inr (BotEnsureRemovedFromProject (number prInfo) ''PR is not active''), lg)
                    else if isDraft prInfo then
                      (Inr (BotEnsureRemovedFromProject (number prInfo) ''PR is a draft''), lg)
                    else
                      (case categorizeFiles env fetchFile (oid headCommit)
                              (noNulls (nodes_of (files prInfo))) lg of
                         (Inl e, lg1) \<Rightarrow> (Inl e, lg1)
                       | (Inr categorizedFiles, lg1) \<Rightarrow>
                           (let pkgs = getPackagesTouched categorizedFiles in
                            if length pkgs = 0 then (Inr (BotNoPackages (number prInfo)), lg1)
                            else
                              (case getOwnersOfPackages env pkgs fetchFile lg1 of
                                 (ownerInfo, lg2) \<Rightarrow>
                                   (case oi_error ownerInfo of
                                      Some err \<Rightarrow>
                                        if err \<noteq> [] then
                                          (Inr (BotError (number prInfo) err
                                                  (Some (login prAuthor))), lg2)
                                        else
                                          (map_sum id Info
                                             (assemble_info env prInfo prAuthor headCommit
                                                categorizedFiles pkgs ownerInfo getDownloads
                                                nowDate), lg2)
                                    | None \<Rightarrow>
                                        (map_sum id Info
                                           (assemble_info env prInfo prAuthor headCommit
                                              categorizedFiles pkgs ownerInfo getDownloads
                                              nowDate), lg2))))))))"

section \<open>Notions used in the statements\<close>

text \<open>
  What the path pattern accepts, read off the regular expression: \<^verbatim>\<open>types/\<close>, a package
  part and a slash, any characters, one character that is not a slash, and at the end
  nothing or one of the four suffixes; the two parts under a star hold no line terminator.
\<close>

definition pattern_suffixes :: "string set" where
  "pattern_suffixes = {[], ''.d.ts'', ''.ts'', ''.tsx'', ''.md''}"

definition matches_package_root_pattern :: "string \<Rightarrow> bool" where
  "matches_package_root_pattern p \<longleftrightarrow>
     (\<exists>pkg mid c sfx.
        p = ''types/'' @ pkg @ ''/'' @ mid @ [c] @ sfx
        \<and> (\<forall>x\<in>set pkg. \<not> isLineTerminator x)
        \<and> (\<forall>x\<in>set mid. \<not> isLineTerminator x)
        \<and> c \<noteq> CHR ''/''
        \<and> sfx \<in> pattern_suffixes)"

text \<open>
  The request that owner resolution makes for a package, the content it is answered with,
  and whether the header parser throws on that content.
\<close>

definition index_request :: "string \<Rightarrow> string \<times> nat option" where
  "index_request p = (''master:types/'' @ p @ ''/index.d.ts'', Some 10240)"

definition header_of :: "fetchFile \<Rightarrow> string \<Rightarrow> string option" where
  "header_of fetchFile p = fetchFile (''master:types/'' @ p @ ''/index.d.ts'') (Some 10240)"

definition header_fails :: "collaborators \<Rightarrow> fetchFile \<Rightarrow> string \<Rightarrow> bool" where
  "header_fails env fetchFile p =
     (case header_of fetchFile p of
        None \<Rightarrow> False
      | Some c \<Rightarrow> (case parseHeaderOrFail env c of Inl m \<Rightarrow> True | Inr h \<Rightarrow> False))"

text \<open>The user names that the header of a package declares, when there is one that parses.\<close>

definition declared_owners :: "collaborators \<Rightarrow> fetchFile \<Rightarrow> string \<Rightarrow> string list" where
  "declared_owners env fetchFile p =
     (case header_of fetchFile p of
        None \<Rightarrow> []
      | Some c \<Rightarrow>
          (case parseHeaderOrFail env c of
             Inl m \<Rightarrow> []
           | Inr h \<Rightarrow> List.map_filter githubUsername (contributors h)))"

text \<open>
  The timestamps of the column moves that are not a bot's, in the order of the timeline.
\<close>

definition blessing_dates :: "collaborators \<Rightarrow> TimelineItem nodes \<Rightarrow> DateTime list" where
  "blessing_dates env items =
     List.map_filter
       (\<lambda>item. case item of
                  Some (MovedColumnsInProjectEvent a d) \<Rightarrow>
                    if authorNotBot env (MovedColumnsInProjectEvent a d) then Some d else None
                | _ \<Rightarrow> None)
       (case items of None \<Rightarrow> [] | Some xs \<Rightarrow> xs)"

text \<open>
  The reviews that count in \<^verbatim>\<open>analyzeReviews\<close>: those with a commit and an author whose
  login is neither empty nor the login of the pull request's author. \<open>counted_review\<close>
  gives the review, its commit and the reviewer's login.
\<close>

definition counted_review :: "string \<Rightarrow> Review option \<Rightarrow> (Review \<times> ReviewCommit \<times> string) option" where
  "counted_review authorLogin r =
     (case r of
        None \<Rightarrow> None
      | Some rv \<Rightarrow>
          (case (r_commit rv, r_author rv) of
             (Some c, Some a) \<Rightarrow>
               if login a = [] \<or> login a = authorLogin then None else Some (rv, c, login a)
           | _ \<Rightarrow> None))"

text \<open>A counted review by \<open>lgn\<close> of the head commit.\<close>

definition head_review_by :: "string \<Rightarrow> string \<Rightarrow> string \<Rightarrow> Review option \<Rightarrow> bool" where
  "head_review_by authorLogin headOid lgn r =
     (case counted_review authorLogin r of
        None \<Rightarrow> False
      | Some (rv, c, l) \<Rightarrow> l = lgn \<and> rc_oid c = headOid)"

text \<open>
  The reviews that the loop records as stale when it meets them, listed oldest first as the
  review log is: a counted review of a commit that is not the head, by a reviewer with no
  counted review of the head commit among the newer reviews. Each comes as the entry
  that is recorded, the commit's abbreviation with the reviewer and the date.
\<close>

fun stale_candidates :: "string \<Rightarrow> string \<Rightarrow> Review option list \<Rightarrow> (string \<times> StaleReview) list" where
  "stale_candidates authorLogin headOid [] = []"
| "stale_candidates authorLogin headOid (r # newer) =
     (case counted_review authorLogin r of
        None \<Rightarrow> []
      | Some (rv, c, l) \<Rightarrow>
          if rc_oid c \<noteq> headOid \<and> \<not> list_ex (head_review_by authorLogin headOid l) newer
          then [(rc_abbreviatedOid c, \<lparr>sr_reviewer = l, sr_date = r_submittedAt rv\<rparr>)]
          else [])
     @ stale_candidates authorLogin headOid newer"

text \<open>One turn of the loop of \<^verbatim>\<open>analyzeReviews\<close>, written with \<open>counted_review\<close>.\<close>

definition one_review :: "string \<Rightarrow> string \<Rightarrow> (string \<Rightarrow> bool) \<Rightarrow> Review option \<Rightarrow> review_loop \<Rightarrow> review_loop" where
  "one_review a h f r st =
     (case counted_review a r of
        None \<Rightarrow> st
      | Some (rv, c, l) \<Rightarrow> review_step a h f rv c l st)"

text \<open>The review log of a pull request, oldest first; none when the connection is null.\<close>

definition review_log :: "PullRequest \<Rightarrow> Review option list" where
  "review_log pr = (case nodes_of (reviews pr) of None \<Rightarrow> [] | Some xs \<Rightarrow> xs)"

section \<open>Concrete instances\<close>

text \<open>
  Collaborators for the concrete instances: a \<^verbatim>\<open>JSON.parse\<close> that knows \<^verbatim>\<open>null\<close> and
  otherwise throws, a header parser that throws on the text \<^verbatim>\<open>bad\<close> and otherwise names
  the text as the only contributor, whole days between two instants, and the bot test on
  the login \<^verbatim>\<open>typescript-bot\<close>.
\<close>

definition example_env :: collaborators where
  "example_env =
     \<lparr>JSON_parse = (\<lambda>s. if s = ''null'' then Some JNull else None),
      JSON_stringify = (\<lambda>j. case j of JNull \<Rightarrow> ''null'' | _ \<Rightarrow> ''other''),
      inheritedProperty = (\<lambda>n. None),
      parseHeaderOrFail =
        (\<lambda>s. if s = ''bad'' then Inl ''Could not parse version''
             else Inr \<lparr>contributors = [\<lparr>githubUsername = Some s\<rparr>]\<rparr>),
      daysSince = (\<lambda>d n. (n - d) div 86400000),
      authorNotBot =
        (\<lambda>item. case item of
                   IssueComment a d \<Rightarrow> map_option login a \<noteq> Some ''typescript-bot''
                 | MovedColumnsInProjectEvent a d \<Rightarrow> map_option login a \<noteq> Some ''typescript-bot''
                 | _ \<Rightarrow> True),
      getMonthlyDownloadCount = (\<lambda>p. 0),
      toLowerCase = (\<lambda>s. s),
      trim = (\<lambda>s. s)\<rparr>"

text \<open>
  A snapshot for the concrete instances: pull request 42 by \<^verbatim>\<open>alice\<close>, open, head commit
  \<^verbatim>\<open>h1\<close> pushed at instant 0, one changed file of package \<^verbatim>\<open>foo\<close>, a column move by a
  maintainer on day 3, a comment on day 2 and a reopening on day 1. The file store holds a
  header for \<^verbatim>\<open>foo\<close>, a header for \<^verbatim>\<open>bar\<close> that the parser rejects, none for \<^verbatim>\<open>baz\<close>,
  and a \<^verbatim>\<open>tslint.json\<close> that is not JSON.
\<close>

definition day :: int where
  "day = 86400000"

definition example_pr :: PullRequest where
  "example_pr =
     \<lparr>number = 42,
      author = Some \<lparr>login = ''alice''\<rparr>,
      state = OPEN,
      isDraft = False,
      headRefOid = ''h1'',
      authorAssociation = CONTRIBUTOR,
      mergeable = MERGEABLE,
      commits =
        Some [Some \<lparr>commit = \<lparr>oid = ''h1'', abbreviatedOid = ''h1'', pushedDate = 0,
                                 checkSuites = None\<rparr>\<rparr>],
      files = Some (Some [Some \<lparr>f_path = ''types/foo/index.d.ts''\<rparr>]),
      reviews = Some (Some []),
      timelineItems =
        Some [Some (ReopenedEvent (1 * day)),
              Some (IssueComment (Some \<lparr>login = ''alice''\<rparr>) (2 * day)),
              Some (MovedColumnsInProjectEvent (Some \<lparr>login = ''maintainer''\<rparr>) (3 * day))],
      comments = Some []\<rparr>"

definition example_fetchFile :: fetchFile where
  "example_fetchFile p maxBytes =
     (if p = ''master:types/foo/index.d.ts'' then Some ''bob''
      else if p = ''master:types/bar/index.d.ts'' then Some ''bad''
      else if p = ''h1:types/foo/tslint.json'' then Some ''{''
      else None)"

definition snapshot :: "PullRequest \<Rightarrow> QueryResult" where
  "snapshot pr = \<lparr>repository = Some (Some pr)\<rparr>"

text \<open>What the snapshot above derives to, ten days after the push.\<close>

definition example_info :: PrInfo where
  "example_info =
     \<lparr>lastReviewDate = None, reviewersWithStaleReviews = [], approvalFlags = 0,
      isChangesRequested = False, now = 10 * day, pr_number = 42, headCommitOid = ''h1'',
      headCommitAbbrOid = ''h1'', authorIsOwner = False, info_author = ''alice'',
      owners = [''bob''], mergeIsRequested = False, ciResult = Missing, ciUrl = None,
      hasMergeConflict = False, lastPushDate = 0, lastCommentDate = 2 * day,
      reopenedDate = Some (1 * day),
      reviewLink = ''https://github.com/DefinitelyTyped/DefinitelyTyped/pull/42/files'',
      dangerLevel = ScopedAndUntested, stalenessInDays = 8, anyPackageIsNew = False,
      maintainerBlessed = True, hasDismissedReview = False, isFirstContribution = False,
      popularityLevel = WellLikedByEveryone, packages = [''foo''],
      info_files = [\<lparr>path = ''types/foo/index.d.ts'', kind = K_definition, package = Some ''foo''\<rparr>]\<rparr>"

text \<open>Three changed files, of the packages \<^verbatim>\<open>baz\<close>, \<^verbatim>\<open>bar\<close> and \<^verbatim>\<open>foo\<close>.\<close>

definition example_files :: "ChangedFile nodes option" where
  "example_files =
     Some (Some [Some \<lparr>f_path = ''types/baz/a.ts''\<rparr>, Some \<lparr>f_path = ''types/bar/a.ts''\<rparr>,
                 Some \<lparr>f_path = ''types/foo/a.ts''\<rparr>])"

text \<open>
  Reviews for the concrete instances: an approval by \<open>l\<close> of the commit \<open>c\<close> at the instant
  \<open>d\<close>. In the first pull request \<^verbatim>\<open>bob\<close> reviews the old commit \<^verbatim>\<open>c0\<close> twice; in the second
  \<^verbatim>\<open>bob\<close> and \<^verbatim>\<open>carol\<close> review \<^verbatim>\<open>c0\<close> and \<^verbatim>\<open>bob\<close> then reviews the head commit.
\<close>

definition example_review :: "string \<Rightarrow> string \<Rightarrow> DateTime \<Rightarrow> Review" where
  "example_review l c d =
     \<lparr>r_commit = Some \<lparr>rc_oid = c, rc_abbreviatedOid = c\<rparr>, r_author = Some \<lparr>login = l\<rparr>,
      r_state = APPROVED, r_authorAssociation = CONTRIBUTOR, r_submittedAt = d,
      r_comments = None\<rparr>"

definition example_pr_two_stale :: PullRequest where
  "example_pr_two_stale =
     example_pr\<lparr>reviews :=
       Some (Some [Some (example_review ''bob'' ''c0'' (1 * day)),
                   Some (example_review ''bob'' ''c0'' (2 * day))])\<rparr>"

definition example_pr_current :: PullRequest where
  "example_pr_current =
     example_pr\<lparr>reviews :=
       Some (Some [Some (example_review ''bob'' ''c0'' (1 * day)),
                   Some (example_review ''carol'' ''c0'' (2 * day)),
                   Some (example_review ''bob'' ''h1'' (3 * day))])\<rparr>"

text \<open>
  The snapshot above with one changed file instead, \<^verbatim>\<open>types/foo/tslint.json\<close>, whose content
  in the file store is not JSON.
\<close>

definition example_pr_tslint :: PullRequest where
  "example_pr_tslint =
     example_pr\<lparr>files := Some (Some [Some \<lparr>f_path = ''types/foo/tslint.json''\<rparr>])\<rparr>"

section \<open>Properties\<close>

subsection \<open>Packages touched\<close>

lemma set_add_all_set: "set (set_add_all acc xs) = set acc \<union> set xs"
  by (induction xs arbitrary: acc) auto

lemma set_add_all_distinct: "distinct acc \<Longrightarrow> distinct (set_add_all acc xs)"
  by (induction xs arbitrary: acc) auto

lemma noNulls_Some_set: "set (noNulls (Some xs)) = {x. Some x \<in> set xs}"
  by (induction xs) (auto simp: noNulls_def split: option.splits)

lemma getPackagesTouched_set:
  "set (getPackagesTouched fs) = {p. \<exists>f\<in>set fs. package f = Some p}"
  by (force simp: getPackagesTouched_def set_add_all_set noNulls_Some_set image_iff)

lemma getPackagesTouched_distinct: "distinct (getPackagesTouched fs)"
  by (simp add: getPackagesTouched_def set_add_all_distinct)

lemma getPackagesTouched_length:
  "length (getPackagesTouched fs) = card {p. \<exists>f\<in>set fs. package f = Some p}"
  using distinct_card [OF getPackagesTouched_distinct, of fs]
  by (simp add: getPackagesTouched_set)

subsection \<open>Danger level\<close>

text \<open>
  Claim C5. The danger level of a list of classified files is the first match in this
  order: an \<^verbatim>\<open>infrastructure\<close> file, or no package touched, gives \<open>Infrastructure\<close>; else
  more than one distinct package gives \<open>MultiplePackagesEdited\<close>; else a \<^verbatim>\<open>package-meta\<close>
  file gives \<open>ScopedAndConfiguration\<close>; else a \<^verbatim>\<open>test\<close> file gives \<open>ScopedAndTested\<close>;
  otherwise \<open>ScopedAndUntested\<close>. The packages touched are counted as a set. In
  particular an infrastructure file and a test file, in either order, give
  \<open>Infrastructure\<close>.
\<close>

theorem getDangerLevel_precedence:
  "getDangerLevel fs =
     (let touched = {p. \<exists>f\<in>set fs. package f = Some p} in
      if (\<exists>f\<in>set fs. kind f = K_infrastructure) \<or> card touched = 0 then Infrastructure
      else if card touched > 1 then MultiplePackagesEdited
      else if \<exists>f\<in>set fs. kind f = K_package_meta then ScopedAndConfiguration
      else if \<exists>f\<in>set fs. kind f = K_test then ScopedAndTested
      else ScopedAndUntested)
   \<and> (kind a = K_infrastructure \<longrightarrow> kind b = K_test \<longrightarrow>
        getDangerLevel [a, b] = Infrastructure \<and> getDangerLevel [b, a] = Infrastructure)"
proof
  show "getDangerLevel fs =
     (let touched = {p. \<exists>f\<in>set fs. package f = Some p} in
      if (\<exists>f\<in>set fs. kind f = K_infrastructure) \<or> card touched = 0 then Infrastructure
      else if card touched > 1 then MultiplePackagesEdited
      else if \<exists>f\<in>set fs. kind f = K_package_meta then ScopedAndConfiguration
      else if \<exists>f\<in>set fs. kind f = K_test then ScopedAndTested
      else ScopedAndUntested)"
    unfolding getDangerLevel_def Let_def getPackagesTouched_length list_ex_iff
    by simp
  show "kind a = K_infrastructure \<longrightarrow> kind b = K_test \<longrightarrow>
        getDangerLevel [a, b] = Infrastructure \<and> getDangerLevel [b, a] = Infrastructure"
    by (simp add: getDangerLevel_def)
qed

theorem getDangerLevel_precedence_witness:
  "getDangerLevel
     [\<lparr>path = ''README.md'', kind = K_infrastructure, package = None\<rparr>,
      \<lparr>path = ''types/foo/foo-tests.ts'', kind = K_test, package = Some ''foo''\<rparr>]
   = Infrastructure"
  using getDangerLevel_precedence
    [of fs "\<lparr>path = ''README.md'', kind = K_infrastructure, package = None\<rparr>"
        "\<lparr>path = ''types/foo/foo-tests.ts'', kind = K_test, package = Some ''foo''\<rparr>"]
  by simp

subsection \<open>Popularity level\<close>

lemma popularity_loop_eq:
  "popularity_loop lvl ds =
     (if \<exists>e\<in>set ds. snd e > 5000000 then Critical
      else if \<exists>e\<in>set ds. snd e > 200000 then Popular
      else lvl)"
  by (induction lvl ds rule: popularity_loop.induct)
     (auto simp: CriticalPopularityThreshold_def NormalPopularityThreshold_def)

text \<open>
  Claim C6. The popularity level of a record of downloads per package is \<open>Critical\<close> iff
  some package has strictly more than 5,000,000 downloads; otherwise \<open>Popular\<close> iff some
  package has strictly more than 200,000; otherwise the lowest level. Hence a record
  that holds a package with more than 5,000,000 downloads, whatever the entries before
  and after it, is \<open>Critical\<close>.
\<close>

theorem getPopularityLevelFromDownloads_thresholds:
  "getPopularityLevelFromDownloads ds =
     (if \<exists>e\<in>set ds. snd e > 5000000 then Critical
      else if \<exists>e\<in>set ds. snd e > 200000 then Popular
      else WellLikedByEveryone)
   \<and> (d > 5000000 \<longrightarrow> getPopularityLevelFromDownloads (ds1 @ (p, d) # ds2) = Critical)"
  by (simp add: getPopularityLevelFromDownloads_def popularity_loop_eq)

theorem getPopularityLevelFromDownloads_thresholds_witness:
  "getPopularityLevelFromDownloads [(''a'', 5000000), (''b'', 200001)] = Popular
   \<and> getPopularityLevelFromDownloads [(''a'', 5000000), (''c'', 5000001), (''b'', 200001)] = Critical"
  using getPopularityLevelFromDownloads_thresholds
    [of "[(''a'', 5000000), (''b'', 200001)]" 5000001 "[(''a'', 5000000)]" "''c''"
        "[(''b'', 200001)]"]
  by simp

subsection \<open>The path pattern\<close>

lemma match_suffix_iff: "match_suffix s \<noteq> None \<longleftrightarrow> s \<in> pattern_suffixes"
  by (simp add: match_suffix_def pattern_suffixes_def)

lemma match_rest_iff:
  "match_rest t \<noteq> None \<longleftrightarrow>
     (\<exists>mid c sfx. t = mid @ c # sfx \<and> (\<forall>x\<in>set mid. \<not> isLineTerminator x) \<and> c \<noteq> CHR ''/''
        \<and> sfx \<in> pattern_suffixes)"
proof (induction t)
  case Nil
  then show ?case by simp
next
  case (Cons a t)
  show ?case
  proof (cases "a \<noteq> CHR ''/'' \<and> match_suffix t \<noteq> None")
    case True
    then have "match_rest (a # t) \<noteq> None" by auto
    moreover have "a # t = [] @ a # t \<and> (\<forall>x\<in>set []. \<not> isLineTerminator x) \<and> a \<noteq> CHR ''/''
        \<and> t \<in> pattern_suffixes"
      using True match_suffix_iff [of t] by auto
    ultimately show ?thesis by blast
  next
    case False
    then have step: "match_rest (a # t) = (if isLineTerminator a then None else match_rest t)"
      by (auto split: option.splits)
    show ?thesis
    proof
      assume "match_rest (a # t) \<noteq> None"
      with step have na: "\<not> isLineTerminator a" and "match_rest t \<noteq> None"
        by (auto split: if_splits)
      with Cons.IH obtain mid c sfx where
        "t = mid @ c # sfx" "\<forall>x\<in>set mid. \<not> isLineTerminator x" "c \<noteq> CHR ''/''" "sfx \<in> pattern_suffixes"
        by blast
      with na have "a # t = (a # mid) @ c # sfx \<and> (\<forall>x\<in>set (a # mid). \<not> isLineTerminator x)
          \<and> c \<noteq> CHR ''/'' \<and> sfx \<in> pattern_suffixes" by simp
      then show "\<exists>mid c sfx. a # t = mid @ c # sfx \<and> (\<forall>x\<in>set mid. \<not> isLineTerminator x)
          \<and> c \<noteq> CHR ''/'' \<and> sfx \<in> pattern_suffixes" by blast
    next
      assume "\<exists>mid c sfx. a # t = mid @ c # sfx \<and> (\<forall>x\<in>set mid. \<not> isLineTerminator x)
          \<and> c \<noteq> CHR ''/'' \<and> sfx \<in> pattern_suffixes"
      then obtain mid c sfx where d: "a # t = mid @ c # sfx" "\<forall>x\<in>set mid. \<not> isLineTerminator x"
          "c \<noteq> CHR ''/''" "sfx \<in> pattern_suffixes" by blast
      show "match_rest (a # t) \<noteq> None"
      proof (cases mid)
        case Nil
        with d have "a = c" "t = sfx" by auto
        with d False match_suffix_iff [of t] show ?thesis by auto
      next
        case (Cons m mid')
        with d have "a = m" "t = mid' @ c # sfx" "\<not> isLineTerminator a"
          "\<forall>x\<in>set mid'. \<not> isLineTerminator x" by auto
        with d Cons.IH have "match_rest t \<noteq> None" by blast
        with step \<open>\<not> isLineTerminator a\<close> show ?thesis by simp
      qed
    qed
  qed
qed

lemma match_package_iff:
  "match_package acc t \<noteq> None \<longleftrightarrow>
     (\<exists>pkg rest. t = pkg @ CHR ''/'' # rest \<and> (\<forall>x\<in>set pkg. \<not> isLineTerminator x)
        \<and> match_rest rest \<noteq> None)"
proof (induction t arbitrary: acc)
  case Nil
  then show ?case by simp
next
  case (Cons a t)
  show ?case
  proof (cases "a = CHR ''/'' \<and> match_rest t \<noteq> None")
    case True
    then have "match_package acc (a # t) \<noteq> None" by auto
    moreover have "a # t = [] @ CHR ''/'' # t \<and> (\<forall>x\<in>set []. \<not> isLineTerminator x)
        \<and> match_rest t \<noteq> None"
      using True by simp
    ultimately show ?thesis by blast
  next
    case False
    then have step: "match_package acc (a # t) =
        (if isLineTerminator a then None else match_package (a # acc) t)"
      by (auto split: option.splits)
    show ?thesis
    proof
      assume "match_package acc (a # t) \<noteq> None"
      with step have na: "\<not> isLineTerminator a" and "match_package (a # acc) t \<noteq> None"
        by (auto split: if_splits)
      with Cons.IH obtain pkg rest where
        "t = pkg @ CHR ''/'' # rest" "\<forall>x\<in>set pkg. \<not> isLineTerminator x" "match_rest rest \<noteq> None"
        by blast
      with na have "a # t = (a # pkg) @ CHR ''/'' # rest \<and> (\<forall>x\<in>set (a # pkg). \<not> isLineTerminator x)
          \<and> match_rest rest \<noteq> None" by simp
      then show "\<exists>pkg rest. a # t = pkg @ CHR ''/'' # rest \<and> (\<forall>x\<in>set pkg. \<not> isLineTerminator x)
          \<and> match_rest rest \<noteq> None" by blast
    next
      assume "\<exists>pkg rest. a # t = pkg @ CHR ''/'' # rest \<and> (\<forall>x\<in>set pkg. \<not> isLineTerminator x)
          \<and> match_rest rest \<noteq> None"
      then obtain pkg rest where d: "a # t = pkg @ CHR ''/'' # rest"
          "\<forall>x\<in>set pkg. \<not> isLineTerminator x" "match_rest rest \<noteq> None" by blast
      show "match_package acc (a # t) \<noteq> None"
      proof (cases pkg)
        case Nil
        with d have "a = CHR ''/''" "t = rest" by auto
        with d False show ?thesis by simp
      next
        case (Cons m pkg')
        with d have "a = m" "t = pkg' @ CHR ''/'' # rest" "\<not> isLineTerminator a"
          "\<forall>x\<in>set pkg'. \<not> isLineTerminator x" by auto
        with d Cons.IH have "match_package (a # acc) t \<noteq> None" by blast
        with step \<open>\<not> isLineTerminator a\<close> show ?thesis by simp
      qed
    qed
  qed
qed

lemma startsWith_append: "startsWith p q \<longleftrightarrow> (\<exists>r. p = q @ r)"
  unfolding startsWith_def
  by (metis append_eq_conv_conj append_take_drop_id)

lemma path_pattern_exec_iff:
  "path_pattern_exec p \<noteq> None \<longleftrightarrow> matches_package_root_pattern p"
proof
  assume a: "path_pattern_exec p \<noteq> None"
  then have sw: "startsWith p ''types/''" and m: "match_package [] (drop 6 p) \<noteq> None"
    by (auto simp: path_pattern_exec_def split: if_splits)
  from sw obtain r where r: "p = ''types/'' @ r" unfolding startsWith_append by blast
  then have "drop 6 p = r" by simp
  with m obtain pkg rest where "r = pkg @ CHR ''/'' # rest" "\<forall>x\<in>set pkg. \<not> isLineTerminator x"
     "match_rest rest \<noteq> None" unfolding match_package_iff by blast
  moreover then obtain mid c sfx where "rest = mid @ c # sfx" "\<forall>x\<in>set mid. \<not> isLineTerminator x"
     "c \<noteq> CHR ''/''" "sfx \<in> pattern_suffixes" unfolding match_rest_iff by blast
  ultimately show "matches_package_root_pattern p"
    unfolding matches_package_root_pattern_def using r by auto
next
  assume "matches_package_root_pattern p"
  then obtain pkg mid c sfx where d: "p = ''types/'' @ pkg @ ''/'' @ mid @ [c] @ sfx"
     "\<forall>x\<in>set pkg. \<not> isLineTerminator x" "\<forall>x\<in>set mid. \<not> isLineTerminator x"
     "c \<noteq> CHR ''/''" "sfx \<in> pattern_suffixes"
    unfolding matches_package_root_pattern_def by blast
  then have sw: "startsWith p ''types/''" unfolding startsWith_append by blast
  from d have dr: "drop 6 p = pkg @ CHR ''/'' # (mid @ c # sfx)" by simp
  have "match_rest (mid @ c # sfx) \<noteq> None" unfolding match_rest_iff using d by blast
  then have "match_package [] (drop 6 p) \<noteq> None"
    unfolding match_package_iff dr using d by blast
  with sw show "path_pattern_exec p \<noteq> None" by (simp add: path_pattern_exec_def)
qed

text \<open>
  Claim C9. A path that does not match the package-root pattern (\<^verbatim>\<open>types/\<close>, a package,
  a slash and more, the last part optionally ending in \<^verbatim>\<open>.d.ts\<close>, \<^verbatim>\<open>.ts\<close>, \<^verbatim>\<open>.tsx\<close> or
  \<^verbatim>\<open>.md\<close>) is classified \<^verbatim>\<open>infrastructure\<close> with no package, whatever the content, and
  the content accessor is not run: the state it would change is returned as it was.
\<close>

theorem categorizeFile_unmatched_infrastructure:
  assumes "\<not> matches_package_root_pattern p"
  shows "categorizeFile env p contents s
           = (Inr \<lparr>path = p, kind = K_infrastructure, package = None\<rparr>, s)"
  using assms path_pattern_exec_iff [of p]
  by (cases "path_pattern_exec p") (auto simp: categorizeFile_def)

theorem categorizeFile_unmatched_infrastructure_witness:
  "\<not> matches_package_root_pattern ''README.md''
   \<and> categorizeFile example_env ''README.md'' (\<lambda>n. (Some ''text'', Suc n)) (0::nat)
       = (Inr \<lparr>path = ''README.md'', kind = K_infrastructure, package = None\<rparr>, 0)"
proof -
  have "path_pattern_exec ''README.md'' = None"
    by (simp add: path_pattern_exec_def startsWith_def)
  then have n: "\<not> matches_package_root_pattern ''README.md''"
    using path_pattern_exec_iff [of "''README.md''"] by simp
  from categorizeFile_unmatched_infrastructure [OF n] n show ?thesis by simp
qed

subsection \<open>Malformed configuration files\<close>

text \<open>
  A configuration file that is not in order is classified \<^verbatim>\<open>package-meta\<close> on three paths:
  a basename that has no rule, for which the content is not fetched; a content that is
  absent; and a rule that answers no.
\<close>

lemma categorizeFile_config_not_ok:
  assumes "path_pattern_exec p = Some (pkg, None)"
  shows "configOK_rule env (remove_directories p) = None \<Longrightarrow>
           categorizeFile env p contents s
             = (Inr \<lparr>path = p, kind = K_package_meta, package = Some pkg\<rparr>, s)"
    and "configOK_rule env (remove_directories p) = Some rule \<Longrightarrow> contents s = (None, s') \<Longrightarrow>
           categorizeFile env p contents s
             = (Inr \<lparr>path = p, kind = K_package_meta, package = Some pkg\<rparr>, s')"
    and "configOK_rule env (remove_directories p) = Some rule \<Longrightarrow> contents s = (Some text, s') \<Longrightarrow>
         rule text = Inr False \<Longrightarrow>
           categorizeFile env p contents s
             = (Inr \<lparr>path = p, kind = K_package_meta, package = Some pkg\<rparr>, s')"
  using assms by (simp_all add: categorizeFile_def configOK_def)


text \<open>
  Claim C3, which the code does not meet. A file \<^verbatim>\<open>tslint.json\<close> of a package whose content
  \<^verbatim>\<open>JSON.parse\<close> rejects is not classified \<^verbatim>\<open>package-meta\<close>: the \<^verbatim>\<open>SyntaxError\<close> leaves
  \<^verbatim>\<open>categorizeFile\<close>, after the content has been fetched.
\<close>

theorem categorizeFile_tslint_malformed_raises:
  assumes "path_pattern_exec p = Some (pkg, None)"
    and "remove_directories p = ''tslint.json''"
    and "contents s = (Some text, s')"
    and "JSON_parse env text = None"
  shows "categorizeFile env p contents s = (Inl SyntaxError, s')"
  using assms
  by (simp add: categorizeFile_def configOK_def configOK_rule_def configOK_tslint_def)

theorem categorizeFile_tslint_malformed_raises_witness:
  "categorizeFile example_env ''types/foo/tslint.json'' (\<lambda>n. (Some ''{'', Suc n)) (0::nat)
     = (Inl SyntaxError, 1)"
proof -
  have 1: "path_pattern_exec ''types/foo/tslint.json'' = Some (''foo'', None)"
    by (simp add: path_pattern_exec_def startsWith_def match_suffix_def isLineTerminator_def)
  have 2: "remove_directories ''types/foo/tslint.json'' = ''tslint.json''"
    by (simp add: last_slash_in_line_def isLineTerminator_def)
  have 4: "JSON_parse example_env ''{'' = None" by (simp add: example_env_def)
  show ?thesis
    using categorizeFile_tslint_malformed_raises
      [of "''types/foo/tslint.json''" "''foo''" "\<lambda>n. (Some ''{'', Suc n)" "0::nat" "''{''" 1
          example_env] 1 2 4
    by simp
qed

subsection \<open>The stages of the orchestrator\<close>

lemma owners_loop_error:
  "owners_loop env ff ps st lg = (oi, lg') \<Longrightarrow>
     oi_error oi = oi_error st \<or> (\<exists>m. oi_error oi = Some (''error parsing owners: '' @ m))"
proof (induction ps arbitrary: st lg)
  case Nil
  then show ?case by simp
next
  case (Cons p ps)
  obtain r lg1 where g: "getOwnersForPackage env p ff lg = (r, lg1)" by (cases "getOwnersForPackage env p ff lg")
  show ?case
  proof (cases r)
    case (Inl m)
    with Cons.prems g show ?thesis by auto
  next
    case (Inr o1)
    show ?thesis
    proof (cases o1)
      case None
      with Cons.prems g Inr
      have "owners_loop env ff ps (st\<lparr>oi_anyPackageIsNew := True\<rparr>) lg1 = (oi, lg')" by simp
      from Cons.IH [OF this] show ?thesis by simp
    next
      case (Some os)
      with Cons.prems g Inr
      have "owners_loop env ff ps (st\<lparr>oi_allOwners := set_add_all (oi_allOwners st) os\<rparr>) lg1 = (oi, lg')"
        by simp
      from Cons.IH [OF this] show ?thesis by simp
    qed
  qed
qed

lemma getOwnersOfPackages_error_nonempty:
  assumes "getOwnersOfPackages env ps ff lg = (oi, lg')" and "oi_error oi = Some e"
  shows "e \<noteq> []"
  using owners_loop_error [OF assms(1) [unfolded getOwnersOfPackages_def]] assms(2)
  by auto

lemma analyzeReviews_total:
  "author pr = Some a \<Longrightarrow> \<exists>ra. analyzeReviews pr f = Inr ra"
  by (simp add: analyzeReviews_def Let_def)

lemma assemble_info_total:
  "author pr = Some a \<Longrightarrow> \<exists>i. assemble_info env pr a' hc fs pkgs oi gd nw = Inr i"
  using analyzeReviews_total [of pr a "isOwner env (oi_allOwners oi)"]
  by (auto simp: assemble_info_def Let_def)

lemma derive_fail:
  "pullRequest info = None \<Longrightarrow>
     deriveStateForPR env info ff gd nw lg = (Inr (BotFail ''No PR with this number exists''), lg)"
  by (simp add: deriveStateForPR_def)

lemma derive_no_author:
  "pullRequest info = Some pr \<Longrightarrow> author pr = None \<Longrightarrow>
     deriveStateForPR env info ff gd nw lg
       = (Inr (BotError (number pr) ''PR author does not exist'' None), lg)"
  by (simp add: deriveStateForPR_def)

lemma derive_no_head:
  "pullRequest info = Some pr \<Longrightarrow> author pr = Some a \<Longrightarrow> getHeadCommit pr = None \<Longrightarrow>
     deriveStateForPR env info ff gd nw lg
       = (Inr (BotError (number pr) ''No head commit found'' (Some (login a))), lg)"
  by (simp add: deriveStateForPR_def)

lemma derive_not_open:
  "pullRequest info = Some pr \<Longrightarrow> author pr = Some a \<Longrightarrow> getHeadCommit pr = Some hc \<Longrightarrow>
   state pr \<noteq> OPEN \<Longrightarrow>
     deriveStateForPR env info ff gd nw lg
       = (Inr (BotEnsureRemovedFromProject (number pr) ''PR is not active''), lg)"
  by (simp add: deriveStateForPR_def)

lemma derive_draft:
  "pullRequest info = Some pr \<Longrightarrow> author pr = Some a \<Longrightarrow> getHeadCommit pr = Some hc \<Longrightarrow>
   state pr = OPEN \<Longrightarrow> isDraft pr \<Longrightarrow>
     deriveStateForPR env info ff gd nw lg
       = (Inr (BotEnsureRemovedFromProject (number pr) ''PR is a draft''), lg)"
  by (simp add: deriveStateForPR_def)

lemma derive_classification_raises:
  "pullRequest info = Some pr \<Longrightarrow> author pr = Some a \<Longrightarrow> getHeadCommit pr = Some hc \<Longrightarrow>
   state pr = OPEN \<Longrightarrow> \<not> isDraft pr \<Longrightarrow>
   categorizeFiles env ff (oid hc) (noNulls (nodes_of (files pr))) lg = (Inl e, lg1) \<Longrightarrow>
     deriveStateForPR env info ff gd nw lg = (Inl e, lg1)"
  by (simp add: deriveStateForPR_def)

lemma derive_no_packages:
  "pullRequest info = Some pr \<Longrightarrow> author pr = Some a \<Longrightarrow> getHeadCommit pr = Some hc \<Longrightarrow>
   state pr = OPEN \<Longrightarrow> \<not> isDraft pr \<Longrightarrow>
   categorizeFiles env ff (oid hc) (noNulls (nodes_of (files pr))) lg = (Inr fs, lg1) \<Longrightarrow>
   getPackagesTouched fs = [] \<Longrightarrow>
     deriveStateForPR env info ff gd nw lg = (Inr (BotNoPackages (number pr)), lg1)"
  by (simp add: deriveStateForPR_def)

lemma derive_owner_error:
  assumes "pullRequest info = Some pr" "author pr = Some a" "getHeadCommit pr = Some hc"
   "state pr = OPEN" "\<not> isDraft pr"
   "categorizeFiles env ff (oid hc) (noNulls (nodes_of (files pr))) lg = (Inr fs, lg1)"
   "getPackagesTouched fs \<noteq> []"
   "getOwnersOfPackages env (getPackagesTouched fs) ff lg1 = (oi, lg2)"
   "oi_error oi = Some e"
  shows "deriveStateForPR env info ff gd nw lg = (Inr (BotError (number pr) e (Some (login a))), lg2)"
  using assms getOwnersOfPackages_error_nonempty [OF assms(8) assms(9)]
  by (simp add: deriveStateForPR_def)

lemma derive_info:
  assumes "pullRequest info = Some pr" "author pr = Some a" "getHeadCommit pr = Some hc"
   "state pr = OPEN" "\<not> isDraft pr"
   "categorizeFiles env ff (oid hc) (noNulls (nodes_of (files pr))) lg = (Inr fs, lg1)"
   "getPackagesTouched fs \<noteq> []"
   "getOwnersOfPackages env (getPackagesTouched fs) ff lg1 = (oi, lg2)"
   "oi_error oi = None"
  shows "deriveStateForPR env info ff gd nw lg
           = (map_sum id Info (assemble_info env pr a hc fs (getPackagesTouched fs) oi gd nw), lg2)"
  using assms by (simp add: deriveStateForPR_def)

lemma example_classification:
  "categorizeFiles example_env example_fetchFile ''h1'' (noNulls (nodes_of (files example_pr))) []
     = (Inr [\<lparr>path = ''types/foo/index.d.ts'', kind = K_definition, package = Some ''foo''\<rparr>], [])"
  by code_simp

lemma example_owners:
  "getOwnersOfPackages example_env [''foo''] example_fetchFile []
     = (\<lparr>oi_anyPackageIsNew = False, oi_allOwners = [''bob''], oi_error = None\<rparr>,
        [(''master:types/foo/index.d.ts'', Some 10240)])"
  by code_simp

lemma example_readme_classification:
  "categorizeFiles example_env example_fetchFile ''h1''
     (noNulls (nodes_of (Some (Some [Some \<lparr>f_path = ''README.md''\<rparr>])))) []
     = (Inr [\<lparr>path = ''README.md'', kind = K_infrastructure, package = None\<rparr>], [])"
  by code_simp

subsection \<open>Packages touched and paths\<close>

lemma categorizeFile_package:
  assumes "categorizeFile env p contents s = (Inr fi, s')"
  shows "package fi = map_option fst (path_pattern_exec p) \<and> path fi = p"
proof (cases "path_pattern_exec p")
  case None
  with assms show ?thesis by (auto simp: categorizeFile_def)
next
  case (Some m)
  obtain pkg suffix where m: "m = (pkg, suffix)" by (cases m)
  define sfx where "sfx = (case suffix of None \<Rightarrow> [] | Some x \<Rightarrow> x)"
  obtain r s2 where c: "configOK env p contents s = (r, s2)" by (cases "configOK env p contents s")
  have eq: "categorizeFile env p contents s =
     (if sfx = ''d.ts'' then (Inr \<lparr>path = p, kind = K_definition, package = Some pkg\<rparr>, s)
      else if sfx = ''ts'' \<or> sfx = ''tsx'' then
        (Inr \<lparr>path = p, kind = K_test, package = Some pkg\<rparr>, s)
      else if sfx = ''md'' then (Inr \<lparr>path = p, kind = K_markdown, package = Some pkg\<rparr>, s)
      else (case r of
              Inl e \<Rightarrow> (Inl e, s2)
            | Inr ok \<Rightarrow>
                (Inr \<lparr>path = p, kind = (if ok then K_package_meta_ok else K_package_meta),
                      package = Some pkg\<rparr>, s2)))"
    unfolding categorizeFile_def Some m sfx_def c by (simp only: option.case prod.case Let_def)
  have "package fi = Some pkg \<and> path fi = p"
  proof (cases "sfx = ''d.ts''")
    case True
    with assms eq show ?thesis by auto
  next
    case f1: False
    show ?thesis
    proof (cases "sfx = ''ts'' \<or> sfx = ''tsx''")
      case True
      with assms eq f1 show ?thesis by (simp only: if_True if_False) auto
    next
      case f2: False
      show ?thesis
      proof (cases "sfx = ''md''")
        case True
        with assms eq f1 f2 show ?thesis by (simp only: if_True if_False) auto
      next
        case f3: False
        from assms eq f1 f2 f3
        have "(case r of
              Inl e \<Rightarrow> (Inl e, s2)
            | Inr ok \<Rightarrow>
                (Inr \<lparr>path = p, kind = (if ok then K_package_meta_ok else K_package_meta),
                      package = Some pkg\<rparr>, s2)) = (Inr fi, s')"
          by (simp only: if_True if_False)
        then show ?thesis by (cases r) auto
      qed
    qed
  qed
  with Some m show ?thesis by simp
qed

lemma Promise_all_map_Inr: "Promise_all (map Inr xs) = Inr xs"
  by (induction xs) simp_all

lemma Promise_all_InrD: "Promise_all rs = Inr xs \<Longrightarrow> rs = map Inr xs"
proof (induction rs arbitrary: xs)
  case Nil
  then show ?case by simp
next
  case (Cons r rs)
  show ?case
  proof (cases r)
    case (Inl e)
    with Cons.prems show ?thesis by simp
  next
    case (Inr x)
    show ?thesis
    proof (cases "Promise_all rs")
      case (Inl e)
      with Cons.prems \<open>r = Inr x\<close> show ?thesis by simp
    next
      case ys: (Inr ys)
      with Cons.prems \<open>r = Inr x\<close> have "xs = x # ys" by simp
      moreover from Cons.IH [OF ys] have "rs = map Inr ys" .
      ultimately show ?thesis using \<open>r = Inr x\<close> by simp
    qed
  qed
qed

lemma categorize_each_packages:
  "categorize_each env ff h fs lg = (map Inr xs, lg') \<Longrightarrow>
     map package xs = map (\<lambda>f. map_option fst (path_pattern_exec (f_path f))) fs"
proof (induction fs arbitrary: lg xs lg')
  case Nil
  then show ?case by simp
next
  case (Cons f fs)
  obtain r lg1 where r: "categorizeFile env (f_path f) (fetch ff (h @ '':'' @ f_path f) None) lg = (r, lg1)"
    by (cases "categorizeFile env (f_path f) (fetch ff (h @ '':'' @ f_path f) None) lg")
  obtain rs lg2 where rs: "categorize_each env ff h fs lg1 = (rs, lg2)"
    by (cases "categorize_each env ff h fs lg1")
  from Cons.prems r rs have e: "r # rs = map Inr xs" by simp
  then obtain x xs' where xs: "xs = x # xs'" "r = Inr x" "rs = map Inr xs'" by (cases xs) auto
  from categorizeFile_package [OF r [unfolded xs(2)]]
  have "package x = map_option fst (path_pattern_exec (f_path f))" by simp
  moreover from Cons.IH [OF rs [unfolded xs(3)]]
  have "map package xs' = map (\<lambda>f. map_option fst (path_pattern_exec (f_path f))) fs" .
  ultimately show ?case using xs by simp
qed

lemma categorizeFiles_packages:
  assumes "categorizeFiles env ff h fs lg = (Inr xs, lg')"
  shows "map package xs = map (\<lambda>f. map_option fst (path_pattern_exec (f_path f))) fs"
proof -
  obtain rs lg2 where rs: "categorize_each env ff h fs lg = (rs, lg2)"
    by (cases "categorize_each env ff h fs lg")
  with assms have "Promise_all rs = Inr xs" by (simp add: categorizeFiles_def)
  then have "rs = map Inr xs" by (rule Promise_all_InrD)
  with rs categorize_each_packages show ?thesis by blast
qed

lemma categorize_each_unmatched:
  assumes "\<forall>f\<in>set fs. \<not> matches_package_root_pattern (f_path f)"
  shows "categorize_each env ff h fs lg =
           (map (\<lambda>f. Inr \<lparr>path = f_path f, kind = K_infrastructure, package = None\<rparr>) fs, lg)"
  using assms
proof (induction fs arbitrary: lg)
  case Nil
  then show ?case by simp
next
  case (Cons f fs)
  then have "path_pattern_exec (f_path f) = None"
    using path_pattern_exec_iff [of "f_path f"] by (cases "path_pattern_exec (f_path f)") auto
  then have "categorizeFile env (f_path f) (fetch ff (h @ '':'' @ f_path f) None) lg
      = (Inr \<lparr>path = f_path f, kind = K_infrastructure, package = None\<rparr>, lg)"
    by (simp add: categorizeFile_def)
  with Cons show ?case by simp
qed

lemma categorizeFiles_unmatched:
  assumes "\<forall>f\<in>set fs. \<not> matches_package_root_pattern (f_path f)"
  shows "categorizeFiles env ff h fs lg =
           (Inr (map (\<lambda>f. \<lparr>path = f_path f, kind = K_infrastructure, package = None\<rparr>) fs), lg)"
proof -
  have "Promise_all (map (\<lambda>f. Inr \<lparr>path = f_path f, kind = K_infrastructure, package = None\<rparr>) fs)
      = (Inr (map (\<lambda>f. \<lparr>path = f_path f, kind = K_infrastructure, package = None\<rparr>) fs)
           :: js_error + FileInfo list)"
    using Promise_all_map_Inr
      [of "map (\<lambda>f. \<lparr>path = f_path f, kind = K_infrastructure, package = None\<rparr>) fs"]
    by (simp only: map_map comp_def)
  then show ?thesis
    unfolding categorizeFiles_def categorize_each_unmatched [OF assms] by simp
qed

lemma getPackagesTouched_Nil_iff:
  "getPackagesTouched xs = [] \<longleftrightarrow> (\<forall>x\<in>set xs. package x = None)"
proof
  assume "getPackagesTouched xs = []"
  then have e: "set (getPackagesTouched xs) = {}" by simp
  show "\<forall>x\<in>set xs. package x = None"
  proof
    fix x assume x: "x \<in> set xs"
    show "package x = None"
    proof (cases "package x")
      case None then show ?thesis .
    next
      case (Some q)
      with x have "q \<in> set (getPackagesTouched xs)" unfolding getPackagesTouched_set by blast
      with e show ?thesis by simp
    qed
  qed
next
  assume "\<forall>x\<in>set xs. package x = None"
  then have "set (getPackagesTouched xs) = {}" unfolding getPackagesTouched_set by simp
  then show "getPackagesTouched xs = []" by simp
qed

lemma derive_no_file_of_a_package:
  assumes "pullRequest info = Some pr" "author pr = Some a" "getHeadCommit pr = Some hc"
    "state pr = OPEN" "\<not> isDraft pr"
    "\<forall>f\<in>set (noNulls (nodes_of (files pr))). \<not> matches_package_root_pattern (f_path f)"
  shows "deriveStateForPR env info ff gd nw lg = (Inr (BotNoPackages (number pr)), lg)"
proof -
  note c = categorizeFiles_unmatched [OF assms(6), of env ff "oid hc" lg]
  have "getPackagesTouched
          (map (\<lambda>f. \<lparr>path = f_path f, kind = K_infrastructure, package = None\<rparr>)
             (noNulls (nodes_of (files pr)))) = []"
    by (simp add: getPackagesTouched_Nil_iff)
  from derive_no_packages [OF assms(1-5) c this] show ?thesis .
qed


lemma touched_none_iff_unmatched:
  assumes "categorizeFiles env ff h fs lg = (Inr xs, lg')"
  shows "getPackagesTouched xs = [] \<longleftrightarrow> (\<forall>f\<in>set fs. \<not> matches_package_root_pattern (f_path f))"
proof -
  have "(\<forall>x\<in>set xs. package x = None) \<longleftrightarrow> (\<forall>q\<in>set (map package xs). q = None)" by simp
  also have "\<dots> \<longleftrightarrow> (\<forall>f\<in>set fs. path_pattern_exec (f_path f) = None)"
    unfolding categorizeFiles_packages [OF assms] by simp
  also have "\<dots> \<longleftrightarrow> (\<forall>f\<in>set fs. \<not> matches_package_root_pattern (f_path f))"
    using path_pattern_exec_iff by blast
  finally show ?thesis unfolding getPackagesTouched_Nil_iff .
qed

subsection \<open>Precedence of the outcomes\<close>

text \<open>
  The order of the decisions of \<^verbatim>\<open>deriveStateForPR\<close>, each final: no pull request gives
  \<^verbatim>\<open>fail\<close>; else a null author gives \<^verbatim>\<open>error\<close>; else a head commit that is not among the
  commits gives \<^verbatim>\<open>error\<close>; else a pull request that is not open gives \<^verbatim>\<open>remove\<close>; else a
  draft gives \<^verbatim>\<open>remove\<close>; else no package touched gives \<^verbatim>\<open>no_packages\<close>; else an error of
  owner resolution gives \<^verbatim>\<open>error\<close> with its message; otherwise the result is an \<^verbatim>\<open>info\<close>.
  That no package is touched is stated twice: on the paths (none matches the pattern), and
  on the classified files. The decisions after it hold for the classification that the
  files have; when classifying raises, \<open>derive_classification_raises\<close> applies and none of
  the outcomes is returned.
\<close>

lemma deriveStateForPR_precedence:
  "(let R = fst (deriveStateForPR env info ff gd nw lg) in
    (pullRequest info = None \<longrightarrow> R = Inr (BotFail ''No PR with this number exists''))
    \<and> (\<forall>pr. pullRequest info = Some pr \<longrightarrow>
         (author pr = None \<longrightarrow> R = Inr (BotError (number pr) ''PR author does not exist'' None))
       \<and> (\<forall>a. author pr = Some a \<longrightarrow>
            (getHeadCommit pr = None \<longrightarrow>
               R = Inr (BotError (number pr) ''No head commit found'' (Some (login a))))
          \<and> (\<forall>hc. getHeadCommit pr = Some hc \<longrightarrow>
               (state pr \<noteq> OPEN \<longrightarrow>
                  R = Inr (BotEnsureRemovedFromProject (number pr) ''PR is not active''))
             \<and> (state pr = OPEN \<longrightarrow>
                  (isDraft pr \<longrightarrow>
                     R = Inr (BotEnsureRemovedFromProject (number pr) ''PR is a draft''))
                \<and> (\<not> isDraft pr \<longrightarrow>
                     ((\<forall>f\<in>set (noNulls (nodes_of (files pr))).
                          \<not> matches_package_root_pattern (f_path f)) \<longrightarrow>
                        R = Inr (BotNoPackages (number pr)))
                   \<and> (\<forall>fs lg1.
                        categorizeFiles env ff (oid hc) (noNulls (nodes_of (files pr))) lg
                          = (Inr fs, lg1) \<longrightarrow>
                        (getPackagesTouched fs = [] \<longrightarrow> R = Inr (BotNoPackages (number pr)))
                      \<and> (getPackagesTouched fs \<noteq> [] \<longrightarrow>
                           (\<forall>oi lg2.
                              getOwnersOfPackages env (getPackagesTouched fs) ff lg1 = (oi, lg2) \<longrightarrow>
                              (\<forall>e. oi_error oi = Some e \<longrightarrow>
                                 R = Inr (BotError (number pr) e (Some (login a))))
                            \<and> (oi_error oi = None \<longrightarrow> (\<exists>i. R = Inr (Info i))))))))))))"
  unfolding Let_def
proof (intro conjI allI impI, goal_cases)
  case 1 then show ?case by (simp add: derive_fail)
next
  case 2 then show ?case by (simp add: derive_no_author)
next
  case 3 then show ?case by (simp add: derive_no_head)
next
  case 4 then show ?case by (simp add: derive_not_open)
next
  case 5 then show ?case by (simp add: derive_draft)
next
  case 6 then show ?case by (simp add: derive_no_file_of_a_package)
next
  case 7 then show ?case by (simp add: derive_no_packages)
next
  case (8 pr a hc fs lg1 oi lg2 e)
  then show ?case by (simp add: derive_owner_error)
next
  case (9 pr a hc fs lg1 oi lg2)
  from assemble_info_total [OF 9(2)] obtain i where
    "assemble_info env pr a hc fs (getPackagesTouched fs) oi gd nw = Inr i" by blast
  with 9 show ?case by (simp add: derive_info)
qed

lemma deriveStateForPR_precedence_instances:
  "fst (deriveStateForPR example_env (snapshot (example_pr\<lparr>author := None, isDraft := True\<rparr>))
          example_fetchFile None (10 * day) [])
     = Inr (BotError 42 ''PR author does not exist'' None)
   \<and> fst (deriveStateForPR example_env (snapshot (example_pr\<lparr>isDraft := True\<rparr>))
            example_fetchFile None (10 * day) [])
       = Inr (BotEnsureRemovedFromProject 42 ''PR is a draft'')
   \<and> fst (deriveStateForPR example_env
            (snapshot (example_pr\<lparr>files := Some (Some [Some \<lparr>f_path = ''README.md''\<rparr>])\<rparr>))
            example_fetchFile None (10 * day) [])
       = Inr (BotNoPackages 42)
   \<and> (\<exists>i. fst (deriveStateForPR example_env (snapshot example_pr) example_fetchFile None
                  (10 * day) [])
            = Inr (Info i))"
proof (intro conjI)
  let ?pr = "example_pr\<lparr>author := None, isDraft := True\<rparr>"
  have p: "pullRequest (snapshot ?pr) = Some ?pr" by (simp add: snapshot_def pullRequest_def)
  have a: "author ?pr = None" "number ?pr = 42" by (simp_all add: example_pr_def)
  from deriveStateForPR_precedence [of example_env "snapshot ?pr" example_fetchFile None "10 * day" "[]"]
  show "fst (deriveStateForPR example_env (snapshot ?pr) example_fetchFile None (10 * day) [])
          = Inr (BotError 42 ''PR author does not exist'' None)"
    unfolding Let_def p using a by simp
next
  let ?pr = "example_pr\<lparr>isDraft := True\<rparr>"
  have p: "pullRequest (snapshot ?pr) = Some ?pr" by (simp add: snapshot_def pullRequest_def)
  have a: "author ?pr = Some \<lparr>login = ''alice''\<rparr>" "number ?pr = 42" "state ?pr = OPEN" "isDraft ?pr"
    by (simp_all add: example_pr_def)
  have h: "getHeadCommit ?pr
             = Some \<lparr>oid = ''h1'', abbreviatedOid = ''h1'', pushedDate = 0, checkSuites = None\<rparr>"
    by (simp add: getHeadCommit_def example_pr_def)
  from deriveStateForPR_precedence [of example_env "snapshot ?pr" example_fetchFile None "10 * day" "[]"]
  show "fst (deriveStateForPR example_env (snapshot ?pr) example_fetchFile None (10 * day) [])
          = Inr (BotEnsureRemovedFromProject 42 ''PR is a draft'')"
    unfolding Let_def p using a h by simp
next
  let ?pr = "example_pr\<lparr>files := Some (Some [Some \<lparr>f_path = ''README.md''\<rparr>])\<rparr>"
  let ?hc = "\<lparr>oid = ''h1'', abbreviatedOid = ''h1'', pushedDate = 0, checkSuites = None\<rparr>"
  have p: "pullRequest (snapshot ?pr) = Some ?pr" by (simp add: snapshot_def pullRequest_def)
  have a: "author ?pr = Some \<lparr>login = ''alice''\<rparr>" by (simp add: example_pr_def)
  have n: "number ?pr = 42" by (simp add: example_pr_def)
  have st: "state ?pr = OPEN" by (simp add: example_pr_def)
  have nd: "\<not> isDraft ?pr" by (simp add: example_pr_def)
  have h: "getHeadCommit ?pr = Some ?hc" by (simp add: getHeadCommit_def example_pr_def)
  have c: "categorizeFiles example_env example_fetchFile (oid ?hc) (noNulls (nodes_of (files ?pr))) []
             = (Inr [\<lparr>path = ''README.md'', kind = K_infrastructure, package = None\<rparr>], [])"
    using example_readme_classification by simp
  have k: "getPackagesTouched [\<lparr>path = ''README.md'', kind = K_infrastructure, package = None\<rparr>] = []"
    by (simp add: getPackagesTouched_def noNulls_def)
  note T = deriveStateForPR_precedence
    [of example_env "snapshot ?pr" example_fetchFile None "10 * day" "[]", unfolded Let_def,
     THEN conjunct2, rule_format, OF p, THEN conjunct2, rule_format, OF a,
     THEN conjunct2, rule_format, OF h, THEN conjunct2, rule_format, OF st,
     THEN conjunct2, rule_format, OF nd, THEN conjunct2, rule_format, OF c,
     THEN conjunct1, rule_format, OF k]
  show "fst (deriveStateForPR example_env (snapshot ?pr) example_fetchFile None (10 * day) [])
          = Inr (BotNoPackages 42)"
    using T n by simp
next
  let ?pr = "example_pr"
  let ?hc = "\<lparr>oid = ''h1'', abbreviatedOid = ''h1'', pushedDate = 0, checkSuites = None\<rparr>"
  let ?fs = "[\<lparr>path = ''types/foo/index.d.ts'', kind = K_definition, package = Some ''foo''\<rparr>]"
  have p: "pullRequest (snapshot ?pr) = Some ?pr" by (simp add: snapshot_def pullRequest_def)
  have a: "author ?pr = Some \<lparr>login = ''alice''\<rparr>" by (simp add: example_pr_def)
  have st: "state ?pr = OPEN" by (simp add: example_pr_def)
  have nd: "\<not> isDraft ?pr" by (simp add: example_pr_def)
  have h: "getHeadCommit ?pr = Some ?hc" by (simp add: getHeadCommit_def example_pr_def)
  have c: "categorizeFiles example_env example_fetchFile (oid ?hc) (noNulls (nodes_of (files ?pr))) []
             = (Inr ?fs, [])"
    using example_classification by simp
  have k: "getPackagesTouched ?fs = [''foo'']"
    by (simp add: getPackagesTouched_def noNulls_def)
  have k': "getPackagesTouched ?fs \<noteq> []" unfolding k by simp
  have o: "getOwnersOfPackages example_env (getPackagesTouched ?fs) example_fetchFile []
             = (\<lparr>oi_anyPackageIsNew = False, oi_allOwners = [''bob''], oi_error = None\<rparr>,
                [(''master:types/foo/index.d.ts'', Some 10240)])"
    unfolding k by (rule example_owners)
  have e: "oi_error \<lparr>oi_anyPackageIsNew = False, oi_allOwners = [''bob''], oi_error = None\<rparr> = None"
    by simp
  note T = deriveStateForPR_precedence
    [of example_env "snapshot ?pr" example_fetchFile None "10 * day" "[]", unfolded Let_def,
     THEN conjunct2, rule_format, OF p, THEN conjunct2, rule_format, OF a,
     THEN conjunct2, rule_format, OF h, THEN conjunct2, rule_format, OF st,
     THEN conjunct2, rule_format, OF nd, THEN conjunct2, rule_format, OF c,
     THEN conjunct2, rule_format, OF k',
     rule_format, OF o, THEN conjunct2, rule_format, OF e]
  show "\<exists>i. fst (deriveStateForPR example_env (snapshot ?pr) example_fetchFile None (10 * day) [])
            = Inr (Info i)"
    by (rule T)
qed

text \<open>
  Claim C1, which the code does not meet on every snapshot. The pull request of this
  snapshot is found, has an author and its head commit among the commits, is open and is
  not a draft; its one file has a path of the package \<^verbatim>\<open>foo\<close>, so a package is touched, and
  the header of \<^verbatim>\<open>foo\<close> parses. The claim's order of decisions ends in the \<^verbatim>\<open>info\<close> variant
  here. The code returns none of the five variants: the \<^verbatim>\<open>SyntaxError\<close> that
  \<^verbatim>\<open>JSON.parse\<close> throws on the content of \<^verbatim>\<open>tslint.json\<close> while the file is classified leaves
  \<^verbatim>\<open>deriveStateForPR\<close>, after the one request for the content and before any owner is
  resolved.
\<close>

theorem deriveStateForPR_malformed_tslint_rejects:
  "pullRequest (snapshot example_pr_tslint) = Some example_pr_tslint
   \<and> author example_pr_tslint = Some \<lparr>login = ''alice''\<rparr>
   \<and> getHeadCommit example_pr_tslint
       = Some \<lparr>oid = ''h1'', abbreviatedOid = ''h1'', pushedDate = 0, checkSuites = None\<rparr>
   \<and> state example_pr_tslint = OPEN
   \<and> isDraft example_pr_tslint = False
   \<and> map f_path (noNulls (nodes_of (files example_pr_tslint))) = [''types/foo/tslint.json'']
   \<and> path_pattern_exec ''types/foo/tslint.json'' = Some (''foo'', None)
   \<and> header_fails example_env example_fetchFile ''foo'' = False
   \<and> deriveStateForPR example_env (snapshot example_pr_tslint) example_fetchFile None (10 * day) []
       = (Inl SyntaxError, [(''h1:types/foo/tslint.json'', None)])"
  by code_simp

subsection \<open>The info payload\<close>

lemma derive_info_cases:
  assumes "deriveStateForPR env info ff gd nw lg = (Inr (Info i), lg')"
  shows "\<exists>pr a hc fs lg1 oi.
           pullRequest info = Some pr \<and> author pr = Some a \<and> getHeadCommit pr = Some hc
           \<and> state pr = OPEN \<and> \<not> isDraft pr
           \<and> categorizeFiles env ff (oid hc) (noNulls (nodes_of (files pr))) lg = (Inr fs, lg1)
           \<and> getPackagesTouched fs \<noteq> []
           \<and> getOwnersOfPackages env (getPackagesTouched fs) ff lg1 = (oi, lg')
           \<and> oi_error oi = None
           \<and> assemble_info env pr a hc fs (getPackagesTouched fs) oi gd nw = Inr i"
proof -
  from assms obtain pr where pr: "pullRequest info = Some pr"
    by (cases "pullRequest info") (auto simp: deriveStateForPR_def)
  from assms pr obtain a where a: "author pr = Some a"
    by (cases "author pr") (auto simp: deriveStateForPR_def)
  from assms pr a obtain hc where hc: "getHeadCommit pr = Some hc"
    by (cases "getHeadCommit pr") (auto simp: deriveStateForPR_def)
  from assms pr a hc have op: "state pr = OPEN"
    using derive_not_open [OF pr a hc, of env ff gd nw lg] by (cases "state pr = OPEN") auto
  from assms pr a hc op have dr: "\<not> isDraft pr"
    using derive_draft [OF pr a hc op, of env ff gd nw lg] by (cases "isDraft pr") auto
  obtain c lg1 where c: "categorizeFiles env ff (oid hc) (noNulls (nodes_of (files pr))) lg = (c, lg1)"
    by (cases "categorizeFiles env ff (oid hc) (noNulls (nodes_of (files pr))) lg")
  from assms derive_classification_raises [OF pr a hc op dr, of env ff lg _ lg1 gd nw] c
  obtain fs where fs: "c = Inr fs" by (cases c) auto
  note c = c [unfolded fs]
  from assms derive_no_packages [OF pr a hc op dr c, of gd nw]
  have ne: "getPackagesTouched fs \<noteq> []" by auto
  obtain oi lg2 where o: "getOwnersOfPackages env (getPackagesTouched fs) ff lg1 = (oi, lg2)"
    by (cases "getOwnersOfPackages env (getPackagesTouched fs) ff lg1")
  from assms derive_owner_error [OF pr a hc op dr c ne o, of _ gd nw]
  have noerr: "oi_error oi = None" by (cases "oi_error oi") auto
  from assms derive_info [OF pr a hc op dr c ne o noerr, of gd nw]
  have "lg2 = lg'" and "assemble_info env pr a hc fs (getPackagesTouched fs) oi gd nw = Inr i"
    by (auto simp: map_sum_def split: sum.splits)
  with pr a hc op dr c ne o noerr show ?thesis by blast
qed

lemma assemble_info_fields:
  assumes "assemble_info env pr a hc fs pkgs oi gd nw = Inr i"
  shows "lastPushDate i = pushedDate hc"
    and "now i = nw"
    and "lastCommentDate i =
           (case getLastCommentishActivityDate env (timelineItems pr) (reviews pr) of
              None \<Rightarrow> pushedDate hc | Some d \<Rightarrow> d)"
    and "reopenedDate i = getReopenedDate (timelineItems pr)"
    and "analyzeReviews pr (isOwner env (oi_allOwners oi))
           = Inr \<lparr>lastReviewDate = lastReviewDate i,
                  reviewersWithStaleReviews = reviewersWithStaleReviews i,
                  approvalFlags = approvalFlags i,
                  isChangesRequested = isChangesRequested i\<rparr>"
    and "stalenessInDays i =
           Min (set (map (\<lambda>d. daysSince env (case d of None \<Rightarrow> pushedDate hc | Some x \<Rightarrow> x) nw)
                  [Some (lastPushDate i), Some (lastCommentDate i), reopenedDate i,
                   lastReviewDate i]))"
    and "maintainerBlessed i =
           (case getLastMaintainerBlessingDate env (timelineItems pr) of
              None \<Rightarrow> False | Some b \<Rightarrow> b > pushedDate hc)"
    and "anyPackageIsNew i = oi_anyPackageIsNew oi"
    and "owners i = oi_allOwners oi"
proof -
  from assms obtain ra where ra: "analyzeReviews pr (isOwner env (oi_allOwners oi)) = Inr ra"
    by (cases "analyzeReviews pr (isOwner env (oi_allOwners oi))") (auto simp: assemble_info_def Let_def)
  from assms have i: "Inr i = assemble_info env pr a hc fs pkgs oi gd nw" by simp
  note i = i [unfolded assemble_info_def Let_def ra sum.case, simplified]
  show "lastPushDate i = pushedDate hc" by (simp add: i)
  show "now i = nw" by (simp add: i)
  show "lastCommentDate i =
           (case getLastCommentishActivityDate env (timelineItems pr) (reviews pr) of
              None \<Rightarrow> pushedDate hc | Some d \<Rightarrow> d)" by (simp add: i)
  show "reopenedDate i = getReopenedDate (timelineItems pr)" by (simp add: i)
  show "analyzeReviews pr (isOwner env (oi_allOwners oi))
           = Inr \<lparr>lastReviewDate = lastReviewDate i,
                  reviewersWithStaleReviews = reviewersWithStaleReviews i,
                  approvalFlags = approvalFlags i,
                  isChangesRequested = isChangesRequested i\<rparr>" by (simp add: i ra)
  show "stalenessInDays i =
           Min (set (map (\<lambda>d. daysSince env (case d of None \<Rightarrow> pushedDate hc | Some x \<Rightarrow> x) nw)
                  [Some (lastPushDate i), Some (lastCommentDate i), reopenedDate i,
                   lastReviewDate i]))" by (simp add: i)
  show "maintainerBlessed i =
           (case getLastMaintainerBlessingDate env (timelineItems pr) of
              None \<Rightarrow> False | Some b \<Rightarrow> b > pushedDate hc)" by (simp add: i)
  show "anyPackageIsNew i = oi_anyPackageIsNew oi" by (simp add: i)
  show "owners i = oi_allOwners oi" by (simp add: i)
qed

lemma example_derive:
  "deriveStateForPR example_env (snapshot example_pr) example_fetchFile None (10 * day) []
     = (Inr (Info example_info), [(''master:types/foo/index.d.ts'', Some 10240)])"
  by code_simp

text \<open>
  Claim C8. In every \<^verbatim>\<open>info\<close> result \<open>stalenessInDays\<close> is the least of the days since
  \<open>lastPushDate\<close>, \<open>lastCommentDate\<close>, \<open>reopenedDate\<close> and \<open>lastReviewDate\<close>, counted up to
  \<open>now\<close>, a date that is missing being replaced by \<open>lastPushDate\<close>.
\<close>

theorem stalenessInDays_minimum:
  assumes "deriveStateForPR env info ff gd nw lg = (Inr (Info i), lg')"
  shows "stalenessInDays i =
     Min {daysSince env (lastPushDate i) (now i),
          daysSince env (lastCommentDate i) (now i),
          daysSince env (case reopenedDate i of None \<Rightarrow> lastPushDate i | Some d \<Rightarrow> d) (now i),
          daysSince env (case lastReviewDate i of None \<Rightarrow> lastPushDate i | Some d \<Rightarrow> d) (now i)}"
proof -
  from derive_info_cases [OF assms] obtain pr a hc fs oi where
    ai: "assemble_info env pr a hc fs (getPackagesTouched fs) oi gd nw = Inr i" by blast
  show ?thesis
    unfolding assemble_info_fields(6) [OF ai] assemble_info_fields(1,2) [OF ai]
    by simp
qed

theorem stalenessInDays_minimum_witness:
  "deriveStateForPR example_env (snapshot example_pr) example_fetchFile None (10 * day) []
     = (Inr (Info example_info), [(''master:types/foo/index.d.ts'', Some 10240)])
   \<and> stalenessInDays example_info =
     Min {daysSince example_env (lastPushDate example_info) (now example_info),
          daysSince example_env (lastCommentDate example_info) (now example_info),
          daysSince example_env
            (case reopenedDate example_info of None \<Rightarrow> lastPushDate example_info | Some d \<Rightarrow> d)
            (now example_info),
          daysSince example_env
            (case lastReviewDate example_info of None \<Rightarrow> lastPushDate example_info | Some d \<Rightarrow> d)
            (now example_info)}"
  using example_derive stalenessInDays_minimum [OF example_derive] by (rule conjI)

subsection \<open>Maintainer blessing\<close>

lemma map_filter_append:
  "List.map_filter f (xs @ ys) = List.map_filter f xs @ List.map_filter f ys"
  by (simp add: List.map_filter_def)

lemma getLastMaintainerBlessingDate_last:
  "getLastMaintainerBlessingDate env items =
     (if blessing_dates env items = [] then None else Some (last (blessing_dates env items)))"
proof (cases items)
  case None
  then show ?thesis
    by (simp add: getLastMaintainerBlessingDate_def findLast_def blessing_dates_def)
next
  case (Some xs)
  have "getLastMaintainerBlessingDate env (Some xs) =
     (if blessing_dates env (Some xs) = [] then None else Some (last (blessing_dates env (Some xs))))"
  proof (induction xs rule: rev_induct)
    case Nil
    then show ?case
      by (simp add: getLastMaintainerBlessingDate_def findLast_def blessing_dates_def)
  next
    case (snoc x xs)
    show ?case
    proof (cases "case x of Some (MovedColumnsInProjectEvent a d) \<Rightarrow>
                     authorNotBot env (MovedColumnsInProjectEvent a d) | _ \<Rightarrow> False")
      case True
      then obtain a d where x: "x = Some (MovedColumnsInProjectEvent a d)"
          and nb: "authorNotBot env (MovedColumnsInProjectEvent a d)"
        by (auto split: option.splits TimelineItem.splits)
      then show ?thesis
        by (simp add: getLastMaintainerBlessingDate_def findLast_def blessing_dates_def
              map_filter_append)
    next
      case False
      then have f: "(case x of Some (MovedColumnsInProjectEvent a d) \<Rightarrow>
                    if authorNotBot env (MovedColumnsInProjectEvent a d) then Some d else None
                  | _ \<Rightarrow> None) = None"
        by (auto split: option.splits TimelineItem.splits)
      from False f snoc.IH show ?thesis
        by (simp add: getLastMaintainerBlessingDate_def findLast_def blessing_dates_def
              map_filter_append)
    qed
  qed
  with Some show ?thesis by simp
qed

text \<open>
  Claim C10. In every \<^verbatim>\<open>info\<close> result \<open>maintainerBlessed\<close> holds iff the timeline has a
  column move that is not a bot's and the last such move is strictly later than
  \<open>lastPushDate\<close>, which is the push date of the head commit.
\<close>

theorem maintainerBlessed_iff:
  assumes "deriveStateForPR env info ff gd nw lg = (Inr (Info i), lg')"
    and "pullRequest info = Some pr"
  shows "maintainerBlessed i \<longleftrightarrow>
           (blessing_dates env (timelineItems pr) \<noteq> []
            \<and> last (blessing_dates env (timelineItems pr)) > lastPushDate i)"
proof -
  from derive_info_cases [OF assms(1)] assms(2) obtain a hc fs oi where
    ai: "assemble_info env pr a hc fs (getPackagesTouched fs) oi gd nw = Inr i" by auto
  show ?thesis
    unfolding assemble_info_fields(7) [OF ai] assemble_info_fields(1) [OF ai]
      getLastMaintainerBlessingDate_last
    by simp
qed

theorem maintainerBlessed_iff_witness:
  "deriveStateForPR example_env (snapshot example_pr) example_fetchFile None (10 * day) []
     = (Inr (Info example_info), [(''master:types/foo/index.d.ts'', Some 10240)])
   \<and> pullRequest (snapshot example_pr) = Some example_pr
   \<and> blessing_dates example_env (timelineItems example_pr) = [3 * day]
   \<and> lastPushDate example_info = 0
   \<and> maintainerBlessed example_info"
proof -
  have p: "pullRequest (snapshot example_pr) = Some example_pr"
    by (simp add: snapshot_def pullRequest_def)
  have b: "blessing_dates example_env (timelineItems example_pr) = [3 * day]"
    by (simp add: blessing_dates_def example_pr_def example_env_def)
  have l: "lastPushDate example_info = 0" by (simp add: example_info_def)
  from maintainerBlessed_iff [OF example_derive p] have "maintainerBlessed example_info"
    unfolding b l by (simp add: day_def)
  with example_derive p b l show ?thesis by simp
qed

subsection \<open>Owner resolution\<close>

lemma set_add_all_append:
  "set_add_all acc (xs @ ys) = set_add_all (set_add_all acc xs) ys"
  by (induction xs arbitrary: acc) auto

lemma getOwnersForPackage_cases:
  "getOwnersForPackage env p ff lg =
     ((case header_of ff p of
         None \<Rightarrow> Inr None
       | Some c \<Rightarrow>
           (case parseHeaderOrFail env c of
              Inl m \<Rightarrow> Inl m
            | Inr h \<Rightarrow> Inr (Some (List.map_filter githubUsername (contributors h))))),
      lg @ [index_request p])"
  by (simp add: getOwnersForPackage_def Let_def fetch_def header_of_def index_request_def
      split: option.splits sum.splits)

lemma owners_loop_no_failure:
  assumes "\<forall>p\<in>set ps. \<not> header_fails env ff p"
  shows "owners_loop env ff ps st lg =
     (st\<lparr>oi_anyPackageIsNew := oi_anyPackageIsNew st \<or> (\<exists>p\<in>set ps. header_of ff p = None),
         oi_allOwners := set_add_all (oi_allOwners st) (concat (map (declared_owners env ff) ps))\<rparr>,
      lg @ map index_request ps)"
  using assms
proof (induction ps arbitrary: st lg)
  case Nil
  then show ?case by simp
next
  case (Cons p ps)
  then have nf: "\<not> header_fails env ff p" and rest: "\<forall>p\<in>set ps. \<not> header_fails env ff p"
    by auto
  show ?case
  proof (cases "header_of ff p")
    case None
    then show ?thesis
      using Cons.IH [OF rest]
      by (simp add: getOwnersForPackage_cases declared_owners_def)
  next
    case (Some c)
    with nf obtain h where h: "parseHeaderOrFail env c = Inr h"
      by (cases "parseHeaderOrFail env c") (auto simp: header_fails_def)
    with Some show ?thesis
      using Cons.IH [OF rest]
      by (simp add: getOwnersForPackage_cases declared_owners_def set_add_all_append)
  qed
qed

lemma owners_loop_first_failure:
  assumes "\<forall>q\<in>set ps1. \<not> header_fails env ff q"
    and "header_of ff p = Some c" and "parseHeaderOrFail env c = Inl m"
  shows "owners_loop env ff (ps1 @ p # ps2) st lg =
     (st\<lparr>oi_anyPackageIsNew := oi_anyPackageIsNew st \<or> (\<exists>q\<in>set ps1. header_of ff q = None),
         oi_allOwners := set_add_all (oi_allOwners st) (concat (map (declared_owners env ff) ps1)),
         oi_error := Some (''error parsing owners: '' @ m)\<rparr>,
      lg @ map index_request (ps1 @ [p]))"
  using assms(1)
proof (induction ps1 arbitrary: st lg)
  case Nil
  then show ?case using assms(2,3) by (simp add: getOwnersForPackage_cases)
next
  case (Cons q ps1)
  then have nf: "\<not> header_fails env ff q" and rest: "\<forall>q\<in>set ps1. \<not> header_fails env ff q"
    by auto
  show ?case
  proof (cases "header_of ff q")
    case None
    then show ?thesis
      using Cons.IH [OF rest]
      by (simp add: getOwnersForPackage_cases declared_owners_def)
  next
    case (Some c')
    with nf obtain h where h: "parseHeaderOrFail env c' = Inr h"
      by (cases "parseHeaderOrFail env c'") (auto simp: header_fails_def)
    with Some show ?thesis
      using Cons.IH [OF rest]
      by (simp add: getOwnersForPackage_cases declared_owners_def set_add_all_append)
  qed
qed


lemma set_add_all_Nil_set: "set (set_add_all [] xs) = set xs"
  by (simp add: set_add_all_set)

lemma set_map_filter_eq: "set (List.map_filter f xs) = {y. \<exists>x\<in>set xs. f x = Some y}"
  by (induction xs) (auto split: option.splits)

lemma declared_owners_set1:
  "set (declared_owners env ff p) =
     {u. \<exists>c h. header_of ff p = Some c \<and> parseHeaderOrFail env c = Inr h
            \<and> (\<exists>x\<in>set (contributors h). githubUsername x = Some u)}"
  by (cases "header_of ff p"; cases "parseHeaderOrFail env (the (header_of ff p))")
     (auto simp: declared_owners_def set_map_filter_eq)

lemma declared_owners_set:
  "(\<Union>p\<in>set ps. set (declared_owners env ff p)) =
     {u. \<exists>p\<in>set ps. \<exists>c h. header_of ff p = Some c \<and> parseHeaderOrFail env c = Inr h
            \<and> (\<exists>x\<in>set (contributors h). githubUsername x = Some u)}"
  unfolding declared_owners_set1 by blast

text \<open>
  Claim C7. Owner resolution goes through the touched packages in order. When no header
  fails to parse there is no error, \<open>anyPackageIsNew\<close> holds iff the file of some package is
  absent, the owners are, each once, the user names declared in the headers that are
  present, and every package has been fetched. When the header of \<open>p\<close> is the first that
  the parser rejects, resolution ends with the parser's message, the packages after \<open>p\<close>
  are not fetched, and \<^verbatim>\<open>deriveStateForPR\<close> returns the \<^verbatim>\<open>error\<close> variant with that message.
\<close>

theorem getOwnersOfPackages_resolution:
  "((\<forall>p\<in>set ps. \<not> header_fails env ff p) \<longrightarrow>
      (case getOwnersOfPackages env ps ff lg of
         (oi, lg') \<Rightarrow>
           oi_error oi = None
           \<and> oi_anyPackageIsNew oi = (\<exists>p\<in>set ps. header_of ff p = None)
           \<and> distinct (oi_allOwners oi)
           \<and> set (oi_allOwners oi) =
               {u. \<exists>p\<in>set ps. \<exists>c h. header_of ff p = Some c \<and> parseHeaderOrFail env c = Inr h
                     \<and> (\<exists>x\<in>set (contributors h). githubUsername x = Some u)}
           \<and> lg' = lg @ map index_request ps))
   \<and> ((\<forall>q\<in>set ps1. \<not> header_fails env ff q) \<and> header_of ff p = Some c
         \<and> parseHeaderOrFail env c = Inl m \<longrightarrow>
      (case getOwnersOfPackages env (ps1 @ p # ps2) ff lg of
         (oi, lg') \<Rightarrow>
           oi_error oi = Some (''error parsing owners: '' @ m)
           \<and> lg' = lg @ map index_request (ps1 @ [p]))
      \<and> (\<forall>info pr a hc fs lg0 gd nw.
            pullRequest info = Some pr \<and> author pr = Some a \<and> getHeadCommit pr = Some hc
            \<and> state pr = OPEN \<and> \<not> isDraft pr
            \<and> categorizeFiles env ff (oid hc) (noNulls (nodes_of (files pr))) lg0 = (Inr fs, lg)
            \<and> getPackagesTouched fs = ps1 @ p # ps2 \<longrightarrow>
            deriveStateForPR env info ff gd nw lg0
              = (Inr (BotError (number pr) (''error parsing owners: '' @ m) (Some (login a))),
                 lg @ map index_request (ps1 @ [p]))))"
proof (intro conjI impI)
  assume nf: "\<forall>p\<in>set ps. \<not> header_fails env ff p"
  show "case getOwnersOfPackages env ps ff lg of
         (oi, lg') \<Rightarrow>
           oi_error oi = None
           \<and> oi_anyPackageIsNew oi = (\<exists>p\<in>set ps. header_of ff p = None)
           \<and> distinct (oi_allOwners oi)
           \<and> set (oi_allOwners oi) =
               {u. \<exists>p\<in>set ps. \<exists>c h. header_of ff p = Some c \<and> parseHeaderOrFail env c = Inr h
                     \<and> (\<exists>x\<in>set (contributors h). githubUsername x = Some u)}
           \<and> lg' = lg @ map index_request ps"
    unfolding getOwnersOfPackages_def owners_loop_no_failure [OF nf]
    by (simp add: set_add_all_distinct set_add_all_set declared_owners_set)
next
  assume f: "(\<forall>q\<in>set ps1. \<not> header_fails env ff q) \<and> header_of ff p = Some c
         \<and> parseHeaderOrFail env c = Inl m"
  then have nf: "\<forall>q\<in>set ps1. \<not> header_fails env ff q" and h: "header_of ff p = Some c"
    and pf: "parseHeaderOrFail env c = Inl m" by auto
  note loop = owners_loop_first_failure [OF nf h pf]
  show "case getOwnersOfPackages env (ps1 @ p # ps2) ff lg of
         (oi, lg') \<Rightarrow>
           oi_error oi = Some (''error parsing owners: '' @ m)
           \<and> lg' = lg @ map index_request (ps1 @ [p])"
    unfolding getOwnersOfPackages_def loop by simp
  show "\<forall>info pr a hc fs lg0 gd nw.
            pullRequest info = Some pr \<and> author pr = Some a \<and> getHeadCommit pr = Some hc
            \<and> state pr = OPEN \<and> \<not> isDraft pr
            \<and> categorizeFiles env ff (oid hc) (noNulls (nodes_of (files pr))) lg0 = (Inr fs, lg)
            \<and> getPackagesTouched fs = ps1 @ p # ps2 \<longrightarrow>
            deriveStateForPR env info ff gd nw lg0
              = (Inr (BotError (number pr) (''error parsing owners: '' @ m) (Some (login a))),
                 lg @ map index_request (ps1 @ [p]))"
  proof (intro allI impI)
    fix info pr a hc fs lg0 gd nw
    assume a: "pullRequest info = Some pr \<and> author pr = Some a \<and> getHeadCommit pr = Some hc
            \<and> state pr = OPEN \<and> \<not> isDraft pr
            \<and> categorizeFiles env ff (oid hc) (noNulls (nodes_of (files pr))) lg0 = (Inr fs, lg)
            \<and> getPackagesTouched fs = ps1 @ p # ps2"
    obtain oi lg2 where o: "getOwnersOfPackages env (getPackagesTouched fs) ff lg = (oi, lg2)"
      by (cases "getOwnersOfPackages env (getPackagesTouched fs) ff lg")
    with a have e: "oi_error oi = Some (''error parsing owners: '' @ m)"
      and l: "lg2 = lg @ map index_request (ps1 @ [p])"
      by (auto simp: getOwnersOfPackages_def loop)
    from a have ne: "getPackagesTouched fs \<noteq> []" by simp
    from a have a1: "pullRequest info = Some pr" and a2: "author pr = Some a"
      and a3: "getHeadCommit pr = Some hc" and a4: "state pr = OPEN" and a5: "\<not> isDraft pr"
      and a6: "categorizeFiles env ff (oid hc) (noNulls (nodes_of (files pr))) lg0 = (Inr fs, lg)"
      by simp_all
    from derive_owner_error [OF a1 a2 a3 a4 a5 a6 ne o e, of gd nw] l
    show "deriveStateForPR env info ff gd nw lg0
              = (Inr (BotError (number pr) (''error parsing owners: '' @ m) (Some (login a))),
                 lg @ map index_request (ps1 @ [p]))"
      by simp
  qed
qed


lemma ex_headers:
  "header_of example_fetchFile ''baz'' = None"
  "header_of example_fetchFile ''bar'' = Some ''bad''"
  "header_of example_fetchFile ''foo'' = Some ''bob''"
  "parseHeaderOrFail example_env ''bad'' = Inl ''Could not parse version''"
  "parseHeaderOrFail example_env ''bob'' = Inr \<lparr>contributors = [\<lparr>githubUsername = Some ''bob''\<rparr>]\<rparr>"
  by (simp_all add: header_of_def example_fetchFile_def example_env_def)

lemma ex_cat:
  "categorizeFiles example_env example_fetchFile ''h1'' (noNulls (nodes_of example_files)) []
     = (Inr [\<lparr>path = ''types/baz/a.ts'', kind = K_test, package = Some ''baz''\<rparr>,
             \<lparr>path = ''types/bar/a.ts'', kind = K_test, package = Some ''bar''\<rparr>,
             \<lparr>path = ''types/foo/a.ts'', kind = K_test, package = Some ''foo''\<rparr>], [])"
  by code_simp

lemma ex_pk: "getPackagesTouched [\<lparr>path = ''types/baz/a.ts'', kind = K_test, package = Some ''baz''\<rparr>,
             \<lparr>path = ''types/bar/a.ts'', kind = K_test, package = Some ''bar''\<rparr>,
             \<lparr>path = ''types/foo/a.ts'', kind = K_test, package = Some ''foo''\<rparr>] = [''baz'', ''bar'', ''foo'']"
  by code_simp


lemma ex_hf:
  "\<not> header_fails example_env example_fetchFile ''baz''"
  "\<not> header_fails example_env example_fetchFile ''foo''"
  by (simp_all add: header_fails_def ex_headers)

theorem getOwnersOfPackages_resolution_witness:
  "(case getOwnersOfPackages example_env [''baz'', ''foo''] example_fetchFile [] of
      (oi, lg') \<Rightarrow>
        oi_error oi = None \<and> oi_anyPackageIsNew oi \<and> set (oi_allOwners oi) = {''bob''}
        \<and> lg' = [index_request ''baz'', index_request ''foo''])
   \<and> (case getOwnersOfPackages example_env [''baz'', ''bar'', ''foo''] example_fetchFile [] of
        (oi, lg') \<Rightarrow>
          oi_error oi = Some ''error parsing owners: Could not parse version''
          \<and> lg' = [index_request ''baz'', index_request ''bar''])
   \<and> deriveStateForPR example_env (snapshot (example_pr\<lparr>files := example_files\<rparr>))
        example_fetchFile None (10 * day) []
      = (Inr (BotError 42 ''error parsing owners: Could not parse version'' (Some ''alice'')),
         [index_request ''baz'', index_request ''bar''])"
proof -
  let ?pr = "example_pr\<lparr>files := example_files\<rparr>"
  let ?hc = "\<lparr>oid = ''h1'', abbreviatedOid = ''h1'', pushedDate = 0, checkSuites = None\<rparr>"
  let ?fs = "[\<lparr>path = ''types/baz/a.ts'', kind = K_test, package = Some ''baz''\<rparr>,
             \<lparr>path = ''types/bar/a.ts'', kind = K_test, package = Some ''bar''\<rparr>,
             \<lparr>path = ''types/foo/a.ts'', kind = K_test, package = Some ''foo''\<rparr>]"
  note T = getOwnersOfPackages_resolution
    [of "[''baz'', ''foo'']" example_env example_fetchFile "[]" "[''baz'']" "''bar''" "''bad''"
        "''Could not parse version''" "[''foo'']"]
  have A: "\<forall>p\<in>set [''baz'', ''foo'']. \<not> header_fails example_env example_fetchFile p"
    by (simp add: ex_hf)
  have B: "(\<forall>q\<in>set [''baz'']. \<not> header_fails example_env example_fetchFile q)
      \<and> header_of example_fetchFile ''bar'' = Some ''bad''
      \<and> parseHeaderOrFail example_env ''bad'' = Inl ''Could not parse version''"
    by (simp add: ex_hf ex_headers)
  from T A have 1: "case getOwnersOfPackages example_env [''baz'', ''foo''] example_fetchFile [] of
      (oi, lg') \<Rightarrow>
        oi_error oi = None \<and> oi_anyPackageIsNew oi \<and> set (oi_allOwners oi) = {''bob''}
        \<and> lg' = [index_request ''baz'', index_request ''foo'']"
    by (auto simp: ex_headers split: prod.splits)
  from T B have 2: "case getOwnersOfPackages example_env [''baz'', ''bar'', ''foo''] example_fetchFile [] of
        (oi, lg') \<Rightarrow>
          oi_error oi = Some ''error parsing owners: Could not parse version''
          \<and> lg' = [index_request ''baz'', index_request ''bar'']"
    by simp
  have p: "pullRequest (snapshot ?pr) = Some ?pr" by (simp add: snapshot_def pullRequest_def)
  have a: "author ?pr = Some \<lparr>login = ''alice''\<rparr>" "number ?pr = 42" "state ?pr = OPEN"
    "\<not> isDraft ?pr" "files ?pr = example_files"
    by (simp_all add: example_pr_def)
  have h: "getHeadCommit ?pr = Some ?hc"
    by (simp add: getHeadCommit_def example_pr_def)
  have c: "categorizeFiles example_env example_fetchFile (oid ?hc) (noNulls (nodes_of (files ?pr))) []
             = (Inr ?fs, [])"
    unfolding a using ex_cat by simp
  have k: "getPackagesTouched ?fs = [''baz''] @ ''bar'' # [''foo'']" using ex_pk by simp
  note T3 = T [THEN conjunct2, rule_format, OF B, THEN conjunct2, rule_format,
               where info = "snapshot ?pr" and pr = ?pr and a = "\<lparr>login = ''alice''\<rparr>"
                 and hc = ?hc and fs = ?fs and ?lg0.0 = "[]" and gd = None and nw = "10 * day"]
  have 3: "deriveStateForPR example_env (snapshot ?pr) example_fetchFile None (10 * day) []
      = (Inr (BotError 42 ''error parsing owners: Could not parse version'' (Some ''alice'')),
         [index_request ''baz'', index_request ''bar''])"
    using T3 p a h c k by simp
  from 1 2 3 show ?thesis by blast
qed

subsection \<open>Review reconciler\<close>

lemma review_loop_run_Cons:
  "review_loop_run a h f (r # rs) st = review_loop_run a h f rs (one_review a h f r st)"
  by (auto simp: one_review_def counted_review_def review_step_def
      split: option.splits prod.splits)

lemma review_loop_run_snoc:
  "review_loop_run a h f (rs @ [r]) st = one_review a h f r (review_loop_run a h f rs st)"
proof (induction rs arbitrary: st)
  case Nil
  show ?case using review_loop_run_Cons [of a h f r "[]" st] by simp
next
  case (Cons x rs)
  show ?case
    using review_loop_run_Cons [of a h f x "rs @ [r]" st] review_loop_run_Cons [of a h f x rs st]
      Cons.IH [of "one_review a h f x st"]
    by simp
qed

lemma map_of_map_set: "map_of (map_set k v m) = (map_of m)(k \<mapsto> v)"
  by (induction m) (auto simp: fun_eq_iff)

lemma keys_map_set:
  "map fst (map_set k v m) = (if k \<in> set (map fst m) then map fst m else map fst m @ [k])"
  by (induction m) force+

lemma set_add_all_snoc:
  "set_add_all acc (xs @ [x]) =
     (if x \<in> set (set_add_all acc xs) then set_add_all acc xs else set_add_all acc xs @ [x])"
  by (induction xs arbitrary: acc) auto

lemma counted_review_SomeD:
  assumes "counted_review a r = Some (rv, c, l)"
  shows "r = Some rv" and "r_commit rv = Some c" and "\<exists>au. r_author rv = Some au \<and> login au = l"
    and "l \<noteq> []" and "l \<noteq> a"
  using assms
  by (auto simp: counted_review_def split: option.splits prod.splits if_splits)

lemma one_review_uptodate:
  "hasUpToDateReview (one_review a h f r st) = hasUpToDateReview st \<union> {l. head_review_by a h l r}"
proof (cases "counted_review a r")
  case None
  then show ?thesis by (simp add: one_review_def head_review_by_def)
next
  case (Some t)
  obtain rv c l where t: "t = (rv, c, l)" by (cases t)
  from counted_review_SomeD(5) [OF Some [unfolded t]] have "l \<noteq> a" .
  then show ?thesis
    unfolding one_review_def head_review_by_def Some t
    by (auto simp: review_step_def Let_def)
qed

lemma one_review_stale:
  "staleReviewAuthorsByCommit (one_review a h f r st) =
     (case counted_review a r of
        None \<Rightarrow> staleReviewAuthorsByCommit st
      | Some (rv, c, l) \<Rightarrow>
          if rc_oid c \<noteq> h \<and> l \<notin> hasUpToDateReview st
          then map_set (rc_abbreviatedOid c) \<lparr>sr_reviewer = l, sr_date = r_submittedAt rv\<rparr>
                 (staleReviewAuthorsByCommit st)
          else staleReviewAuthorsByCommit st)"
proof (cases "counted_review a r")
  case None
  then show ?thesis by (simp add: one_review_def)
next
  case (Some t)
  obtain rv c l where t: "t = (rv, c, l)" by (cases t)
  from counted_review_SomeD(5) [OF Some [unfolded t]] have "l \<noteq> a" .
  then show ?thesis
    unfolding one_review_def Some t
    by (auto simp: review_step_def Let_def)
qed

lemma run_invariant:
  "hasUpToDateReview (review_loop_run a h f (rev xs) review_loop_init)
     = {l. \<exists>r\<in>set xs. head_review_by a h l r}
   \<and> map_of (staleReviewAuthorsByCommit (review_loop_run a h f (rev xs) review_loop_init))
       = map_of (stale_candidates a h xs)
   \<and> map fst (staleReviewAuthorsByCommit (review_loop_run a h f (rev xs) review_loop_init))
       = set_add_all [] (map fst (rev (stale_candidates a h xs)))"
proof (induction xs)
  case Nil
  show ?case by (simp add: review_loop_init_def)
next
  case (Cons x xs)
  let ?S = "review_loop_run a h f (rev xs) review_loop_init"
  have run: "review_loop_run a h f (rev (x # xs)) review_loop_init = one_review a h f x ?S"
    by (simp add: review_loop_run_snoc)
  from Cons.IH have up: "hasUpToDateReview ?S = {l. \<exists>r\<in>set xs. head_review_by a h l r}"
    and mo: "map_of (staleReviewAuthorsByCommit ?S) = map_of (stale_candidates a h xs)"
    and ks: "map fst (staleReviewAuthorsByCommit ?S)
               = set_add_all [] (map fst (rev (stale_candidates a h xs)))"
    by auto
  have 1: "hasUpToDateReview (one_review a h f x ?S) = {l. \<exists>r\<in>set (x # xs). head_review_by a h l r}"
    unfolding one_review_uptodate up by auto
  have q: "\<And>l. l \<notin> hasUpToDateReview ?S \<longleftrightarrow> \<not> list_ex (head_review_by a h l) xs"
    unfolding up by (simp add: list_ex_iff)
  have 2: "map_of (staleReviewAuthorsByCommit (one_review a h f x ?S))
             = map_of (stale_candidates a h (x # xs))"
    unfolding one_review_stale
    by (cases "counted_review a x") (auto simp: q map_of_map_set mo)
  have 3: "map fst (staleReviewAuthorsByCommit (one_review a h f x ?S))
             = set_add_all [] (map fst (rev (stale_candidates a h (x # xs))))"
    unfolding one_review_stale
    by (cases "counted_review a x") (auto simp: q keys_map_set ks set_add_all_snoc)
  from 1 2 3 show ?case unfolding run by blast
qed



lemma analyzeReviews_run:
  assumes "author pr = Some a"
  shows "analyzeReviews pr f =
           Inr (review_result
                  (review_loop_run (login a) (headRefOid pr) f (rev (review_log pr)) review_loop_init))"
  using assms by (simp add: analyzeReviews_def review_log_def Let_def)

lemma keys_distinct:
  "distinct (map fst (staleReviewAuthorsByCommit
      (review_loop_run a h f (rev xs) review_loop_init)))"
  using run_invariant [of a h f xs] by (simp add: set_add_all_distinct)

text \<open>
  Claim C2, as amended. A counted review of a commit that is not the head, by a reviewer
  with no more recent counted review of the head commit, is recorded under the commit's
  abbreviation, in place of what was recorded there: the result holds one entry for each
  commit abbreviation, and it is the first of the stale candidates of that commit in the
  log, that is the oldest one, the last that the reversed loop meets.
\<close>

theorem analyzeReviews_stale_kept:
  assumes "author pr = Some a"
  shows "\<exists>ra entries.
           analyzeReviews pr f = Inr ra
           \<and> reviewersWithStaleReviews ra =
               map (\<lambda>(c, s). \<lparr>reviewedAbbrOid = c, reviewer = sr_reviewer s, date = sr_date s\<rparr>)
                 entries
           \<and> distinct (map fst entries)
           \<and> map_of entries = map_of (stale_candidates (login a) (headRefOid pr) (review_log pr))"
proof -
  let ?st = "review_loop_run (login a) (headRefOid pr) f (rev (review_log pr)) review_loop_init"
  have "analyzeReviews pr f = Inr (review_result ?st)"
    by (rule analyzeReviews_run [OF assms])
  moreover have "reviewersWithStaleReviews (review_result ?st) =
      map (\<lambda>(c, s). \<lparr>reviewedAbbrOid = c, reviewer = sr_reviewer s, date = sr_date s\<rparr>)
        (staleReviewAuthorsByCommit ?st)"
    by (simp add: review_result_def)
  moreover have "distinct (map fst (staleReviewAuthorsByCommit ?st))"
    by (rule keys_distinct)
  moreover have "map_of (staleReviewAuthorsByCommit ?st)
      = map_of (stale_candidates (login a) (headRefOid pr) (review_log pr))"
    using run_invariant [of "login a" "headRefOid pr" f "review_log pr"] by simp
  ultimately show ?thesis by blast
qed

theorem analyzeReviews_stale_kept_witness:
  "author example_pr_two_stale = Some \<lparr>login = ''alice''\<rparr>
   \<and> (\<exists>ra entries.
         analyzeReviews example_pr_two_stale (\<lambda>l. False) = Inr ra
         \<and> reviewersWithStaleReviews ra =
             map (\<lambda>(c, s). \<lparr>reviewedAbbrOid = c, reviewer = sr_reviewer s, date = sr_date s\<rparr>)
               entries
         \<and> distinct (map fst entries)
         \<and> map_of entries =
             map_of (stale_candidates (login \<lparr>login = ''alice''\<rparr>)
                       (headRefOid example_pr_two_stale) (review_log example_pr_two_stale)))"
proof -
  have a: "author example_pr_two_stale = Some \<lparr>login = ''alice''\<rparr>"
    by (simp add: example_pr_two_stale_def example_pr_def)
  from a analyzeReviews_stale_kept [OF a, of "\<lambda>l. False"] show ?thesis by (rule conjI)
qed

text \<open>
  The claim as the spec has it fails: of two stale reviews of the same commit by the same
  reviewer, both candidates, the older one is kept, not the most recent.
\<close>

theorem analyzeReviews_stale_kept_counterexample:
  "analyzeReviews example_pr_two_stale (\<lambda>l. False)
     = Inr \<lparr>lastReviewDate = None,
            reviewersWithStaleReviews =
              [\<lparr>reviewedAbbrOid = ''c0'', reviewer = ''bob'', date = 1 * day\<rparr>],
            approvalFlags = 0, isChangesRequested = False\<rparr>
   \<and> stale_candidates ''alice'' ''h1'' (review_log example_pr_two_stale)
       = [(''c0'', \<lparr>sr_reviewer = ''bob'', sr_date = 1 * day\<rparr>),
          (''c0'', \<lparr>sr_reviewer = ''bob'', sr_date = 2 * day\<rparr>)]"
  by code_simp

lemma stale_candidates_mem:
  "(k, v) \<in> set (stale_candidates a h xs) \<Longrightarrow>
     \<exists>older r rv c newer.
       xs = older @ r # newer \<and> counted_review a r = Some (rv, c, sr_reviewer v)
       \<and> k = rc_abbreviatedOid c \<and> sr_date v = r_submittedAt rv \<and> rc_oid c \<noteq> h
       \<and> \<not> list_ex (head_review_by a h (sr_reviewer v)) newer"
proof (induction xs)
  case Nil
  then show ?case by simp
next
  case (Cons x xs)
  show ?case
  proof (cases "(k, v) \<in> set (stale_candidates a h xs)")
    case True
    from Cons.IH [OF True] obtain older r rv c newer where
      "xs = older @ r # newer" "counted_review a r = Some (rv, c, sr_reviewer v)"
      "k = rc_abbreviatedOid c" "sr_date v = r_submittedAt rv" "rc_oid c \<noteq> h"
      "\<not> list_ex (head_review_by a h (sr_reviewer v)) newer" by blast
    then have "x # xs = (x # older) @ r # newer \<and> counted_review a r = Some (rv, c, sr_reviewer v)
       \<and> k = rc_abbreviatedOid c \<and> sr_date v = r_submittedAt rv \<and> rc_oid c \<noteq> h
       \<and> \<not> list_ex (head_review_by a h (sr_reviewer v)) newer" by simp
    then show ?thesis by blast
  next
    case False
    show ?thesis
    proof (cases "counted_review a x")
      case None
      with Cons.prems False show ?thesis by simp
    next
      case (Some t)
      obtain rv c l where t: "t = (rv, c, l)" by (cases t)
      from Cons.prems False Some t
      have cond: "rc_oid c \<noteq> h" "\<not> list_ex (head_review_by a h l) xs"
        and k: "k = rc_abbreviatedOid c"
        and v: "v = \<lparr>sr_reviewer = l, sr_date = r_submittedAt rv\<rparr>"
        by (auto split: if_splits)
      from Some t cond k v
      have "x # xs = [] @ x # xs \<and> counted_review a x = Some (rv, c, sr_reviewer v)
         \<and> k = rc_abbreviatedOid c \<and> sr_date v = r_submittedAt rv \<and> rc_oid c \<noteq> h
         \<and> \<not> list_ex (head_review_by a h (sr_reviewer v)) xs" by simp
      then show ?thesis by blast
    qed
  qed
qed

lemma two_decompositions:
  assumes "A @ x # B = A' @ y # B'"
  shows "(A = A' \<and> x = y \<and> B = B') \<or> y \<in> set B \<or> x \<in> set B'"
  using assms
proof (induction A arbitrary: A')
  case Nil
  then show ?case by (cases A') auto
next
  case (Cons a A)
  show ?case
  proof (cases A')
    case Nil
    with Cons.prems show ?thesis by auto
  next
    case (Cons a' A'')
    with Cons.prems have "A @ x # B = A'' @ y # B'" and "a = a'" by auto
    from Cons.IH [OF this(1)] \<open>a = a'\<close> Cons show ?thesis by auto
  qed
qed

lemma reported_is_candidate:
  assumes "author pr = Some a" and "analyzeReviews pr f = Inr ra"
    and "s \<in> set (reviewersWithStaleReviews ra)"
  shows "(reviewedAbbrOid s, \<lparr>sr_reviewer = reviewer s, sr_date = date s\<rparr>)
           \<in> set (stale_candidates (login a) (headRefOid pr) (review_log pr))"
proof -
  let ?st = "review_loop_run (login a) (headRefOid pr) f (rev (review_log pr)) review_loop_init"
  from analyzeReviews_run [OF assms(1), of f] assms(2) have ra: "ra = review_result ?st" by simp
  have r: "reviewersWithStaleReviews ra =
          map (\<lambda>(c, s). \<lparr>reviewedAbbrOid = c, reviewer = sr_reviewer s, date = sr_date s\<rparr>)
            (staleReviewAuthorsByCommit ?st)"
    by (simp add: ra review_result_def)
  have d: "distinct (map fst (staleReviewAuthorsByCommit ?st))" by (rule keys_distinct)
  have m: "map_of (staleReviewAuthorsByCommit ?st)
             = map_of (stale_candidates (login a) (headRefOid pr) (review_log pr))"
    using run_invariant [of "login a" "headRefOid pr" f "review_log pr"] by simp
  from assms(3) r obtain k v where kv: "(k, v) \<in> set (staleReviewAuthorsByCommit ?st)"
    and s: "s = \<lparr>reviewedAbbrOid = k, reviewer = sr_reviewer v, date = sr_date v\<rparr>"
    by auto
  from d kv have "map_of (staleReviewAuthorsByCommit ?st) k = Some v" by simp
  with m have "map_of (stale_candidates (login a) (headRefOid pr) (review_log pr)) k = Some v"
    by simp
  then have "(k, v) \<in> set (stale_candidates (login a) (headRefOid pr) (review_log pr))"
    by (rule map_of_SomeD)
  then have "(k, \<lparr>sr_reviewer = sr_reviewer v, sr_date = sr_date v\<rparr>)
               \<in> set (stale_candidates (login a) (headRefOid pr) (review_log pr))"
    by (cases v) simp
  then show ?thesis unfolding s by simp
qed

text \<open>
  Claim C4. Every entry of \<open>reviewersWithStaleReviews\<close> comes from a review in the log, by
  that reviewer, of a commit that is not the head, after which no review by the same
  reviewer targets the head commit. Hence a reviewer whose most recent counted review (one
  with a commit and an author, not a self-review) targets the head commit is not listed.
\<close>

theorem current_reviewers_not_stale:
  assumes "author pr = Some a" and "analyzeReviews pr f = Inr ra"
  shows "(\<forall>s\<in>set (reviewersWithStaleReviews ra).
            \<exists>older rv c au newer.
              review_log pr = older @ Some rv # newer
              \<and> r_commit rv = Some c \<and> r_author rv = Some au \<and> login au = reviewer s
              \<and> rc_abbreviatedOid c = reviewedAbbrOid s \<and> rc_oid c \<noteq> headRefOid pr
              \<and> r_submittedAt rv = date s
              \<and> \<not> (\<exists>rv' c' au'. Some rv' \<in> set newer \<and> r_commit rv' = Some c'
                      \<and> rc_oid c' = headRefOid pr \<and> r_author rv' = Some au'
                      \<and> login au' = reviewer s))
       \<and> (\<forall>older r newer l.
            review_log pr = older @ r # newer
            \<and> head_review_by (login a) (headRefOid pr) l r
            \<and> (\<forall>r'\<in>set newer. \<forall>rv c. counted_review (login a) r' \<noteq> Some (rv, c, l))
            \<longrightarrow> l \<notin> reviewer ` set (reviewersWithStaleReviews ra))"
proof (intro conjI ballI allI impI)
  fix s assume s: "s \<in> set (reviewersWithStaleReviews ra)"
  from stale_candidates_mem [OF reported_is_candidate [OF assms s]]
  obtain older r rv c newer where
    xs: "review_log pr = older @ r # newer"
    and cr: "counted_review (login a) r = Some (rv, c, reviewer s)"
    and k: "reviewedAbbrOid s = rc_abbreviatedOid c" and d: "date s = r_submittedAt rv"
    and nh: "rc_oid c \<noteq> headRefOid pr"
    and nl: "\<not> list_ex (head_review_by (login a) (headRefOid pr) (reviewer s)) newer"
    by auto
  from counted_review_SomeD [OF cr] obtain au where
    r: "r = Some rv" and c: "r_commit rv = Some c" and au: "r_author rv = Some au"
    "login au = reviewer s" and ne: "reviewer s \<noteq> []" "reviewer s \<noteq> login a"
    by auto
  have "\<not> (\<exists>rv' c' au'. Some rv' \<in> set newer \<and> r_commit rv' = Some c'
            \<and> rc_oid c' = headRefOid pr \<and> r_author rv' = Some au' \<and> login au' = reviewer s)"
  proof
    assume "\<exists>rv' c' au'. Some rv' \<in> set newer \<and> r_commit rv' = Some c'
            \<and> rc_oid c' = headRefOid pr \<and> r_author rv' = Some au' \<and> login au' = reviewer s"
    then obtain rv' c' au' where m: "Some rv' \<in> set newer" and "r_commit rv' = Some c'"
      "rc_oid c' = headRefOid pr" "r_author rv' = Some au'" "login au' = reviewer s" by blast
    with ne have "head_review_by (login a) (headRefOid pr) (reviewer s) (Some rv')"
      by (simp add: head_review_by_def counted_review_def)
    with m nl show False by (auto simp: list_ex_iff)
  qed
  with xs r c au k d nh
  have "review_log pr = older @ Some rv # newer
              \<and> r_commit rv = Some c \<and> r_author rv = Some au \<and> login au = reviewer s
              \<and> rc_abbreviatedOid c = reviewedAbbrOid s \<and> rc_oid c \<noteq> headRefOid pr
              \<and> r_submittedAt rv = date s
              \<and> \<not> (\<exists>rv' c' au'. Some rv' \<in> set newer \<and> r_commit rv' = Some c'
                      \<and> rc_oid c' = headRefOid pr \<and> r_author rv' = Some au'
                      \<and> login au' = reviewer s)"
    by simp
  then show "\<exists>older rv c au newer.
              review_log pr = older @ Some rv # newer
              \<and> r_commit rv = Some c \<and> r_author rv = Some au \<and> login au = reviewer s
              \<and> rc_abbreviatedOid c = reviewedAbbrOid s \<and> rc_oid c \<noteq> headRefOid pr
              \<and> r_submittedAt rv = date s
              \<and> \<not> (\<exists>rv' c' au'. Some rv' \<in> set newer \<and> r_commit rv' = Some c'
                      \<and> rc_oid c' = headRefOid pr \<and> r_author rv' = Some au'
                      \<and> login au' = reviewer s)"
    by blast
next
  fix older r newer l
  assume h: "review_log pr = older @ r # newer
            \<and> head_review_by (login a) (headRefOid pr) l r
            \<and> (\<forall>r'\<in>set newer. \<forall>rv c. counted_review (login a) r' \<noteq> Some (rv, c, l))"
  show "l \<notin> reviewer ` set (reviewersWithStaleReviews ra)"
  proof
    assume "l \<in> reviewer ` set (reviewersWithStaleReviews ra)"
    then obtain s where s: "s \<in> set (reviewersWithStaleReviews ra)" and l: "l = reviewer s" by auto
    from stale_candidates_mem [OF reported_is_candidate [OF assms s]]
    obtain older2 r2 rv2 c2 newer2 where
      xs: "review_log pr = older2 @ r2 # newer2"
      and cr: "counted_review (login a) r2 = Some (rv2, c2, l)"
      and nh: "rc_oid c2 \<noteq> headRefOid pr"
      and nl: "\<not> list_ex (head_review_by (login a) (headRefOid pr) l) newer2"
      unfolding l by auto
    from h xs have "older @ r # newer = older2 @ r2 # newer2" by simp
    from two_decompositions [OF this]
    consider "r = r2" | "r2 \<in> set newer" | "r \<in> set newer2" by blast
    then show False
    proof cases
      case 1
      with h cr nh show False by (simp add: head_review_by_def)
    next
      case 2
      with h cr show False by blast
    next
      case 3
      with h nl show False by (auto simp: list_ex_iff)
    qed
  qed
qed


lemma example_current_result:
  "analyzeReviews example_pr_current (\<lambda>l. False)
     = Inr \<lparr>lastReviewDate = Some (3 * day),
            reviewersWithStaleReviews =
              [\<lparr>reviewedAbbrOid = ''c0'', reviewer = ''carol'', date = 2 * day\<rparr>],
            approvalFlags = 1, isChangesRequested = False\<rparr>"
  by code_simp

theorem current_reviewers_not_stale_witness:
  "author example_pr_current = Some \<lparr>login = ''alice''\<rparr>
   \<and> analyzeReviews example_pr_current (\<lambda>l. False)
       = Inr \<lparr>lastReviewDate = Some (3 * day),
              reviewersWithStaleReviews =
                [\<lparr>reviewedAbbrOid = ''c0'', reviewer = ''carol'', date = 2 * day\<rparr>],
              approvalFlags = 1, isChangesRequested = False\<rparr>
   \<and> review_log example_pr_current
       = [Some (example_review ''bob'' ''c0'' (1 * day)),
          Some (example_review ''carol'' ''c0'' (2 * day))]
         @ Some (example_review ''bob'' ''h1'' (3 * day)) # []
   \<and> head_review_by ''alice'' ''h1'' ''bob'' (Some (example_review ''bob'' ''h1'' (3 * day)))
   \<and> ''bob'' \<notin> reviewer ` set [\<lparr>reviewedAbbrOid = ''c0'', reviewer = ''carol'', date = 2 * day\<rparr>]"
proof -
  let ?ra = "\<lparr>lastReviewDate = Some (3 * day),
              reviewersWithStaleReviews =
                [\<lparr>reviewedAbbrOid = ''c0'', reviewer = ''carol'', date = 2 * day\<rparr>],
              approvalFlags = 1, isChangesRequested = False\<rparr>"
  have a: "author example_pr_current = Some \<lparr>login = ''alice''\<rparr>"
    by (simp add: example_pr_current_def example_pr_def)
  have l: "review_log example_pr_current
       = [Some (example_review ''bob'' ''c0'' (1 * day)),
          Some (example_review ''carol'' ''c0'' (2 * day))]
         @ Some (example_review ''bob'' ''h1'' (3 * day)) # []"
    by (simp add: review_log_def example_pr_current_def nodes_of_def)
  have hd: "headRefOid example_pr_current = ''h1''"
    by (simp add: example_pr_current_def example_pr_def)
  have h: "head_review_by ''alice'' ''h1'' ''bob'' (Some (example_review ''bob'' ''h1'' (3 * day)))"
    by (simp add: head_review_by_def counted_review_def example_review_def)
  note T = current_reviewers_not_stale [OF a example_current_result, THEN conjunct2, rule_format,
      where older = "[Some (example_review ''bob'' ''c0'' (1 * day)),
          Some (example_review ''carol'' ''c0'' (2 * day))]"
        and r = "Some (example_review ''bob'' ''h1'' (3 * day))" and newer = "[]" and l = "''bob''"]
  have "''bob'' \<notin> reviewer ` set (reviewersWithStaleReviews ?ra)"
    using T l h hd by simp
  then have "''bob'' \<notin> reviewer ` set [\<lparr>reviewedAbbrOid = ''c0'', reviewer = ''carol'', date = 2 * day\<rparr>]"
    by simp
  with a example_current_result l h show ?thesis by blast
qed


end
